theory Spec2Isabelle
  imports Complex_Main
begin

unbundle bit_operations_syntax

section \<open>Common data: errors, outcomes, decoded JSON values\<close>

text \<open>
  The error kinds are the constants of package \<open>mqutil\<close> that the sources name
  (\<open>mqutil.ErrInvalid\<close>, \<open>mqutil.ErrNotFound\<close>, \<open>mqutil.ErrInternal\<close>). An error value is
  either built by \<open>mqutil.NewError(kind, msg)\<close> or by \<open>errors.New(msg)\<close>, which has no kind.
\<close>

datatype ErrKind = ErrInvalid | ErrNotFound | ErrInternal

datatype error = NewError ErrKind string | errors_New string

text \<open>
  A Go call either returns or panics. For a function of result type \<open>(T, error)\<close> or
  \<open>error\<close> the outcome is \<open>Ok v\<close> (the error result is nil), \<open>Err e\<close> (a non-nil error is
  returned as a value) or \<open>Panic msg\<close> (the call does not return).
\<close>

datatype 'a outcome = Ok 'a | Err error | Panic string

text \<open>The kind of the error an outcome carries, if it carries one made by \<open>NewError\<close>.\<close>

definition error_kind :: "'a outcome \<Rightarrow> ErrKind option" where
  "error_kind r = (case r of Err (NewError k msg) \<Rightarrow> Some k | _ \<Rightarrow> None)"

text \<open>
  An \<open>interface{}\<close> holding decoded data, by the \<open>reflect.Kind\<close> the code dispatches on.
  \<open>VInt\<close> stands for every kind from \<open>reflect.Int\<close> to \<open>reflect.Uint64\<close>, \<open>VFloat\<close> for a
  \<open>float64\<close> and \<open>VFloat32\<close> for a \<open>float32\<close> (both modelled by a real number),
  \<open>VString\<close> for a \<open>string\<close>, \<open>VJsonNumber\<close> for a \<open>json.Number\<close> (kind String, but not
  the type \<open>string\<close>), \<open>VMap\<close> for a non-nil
  \<open>map[string]interface{}\<close> (an association list in iteration order), \<open>VNilMap\<close> for the
  nil map of that type, \<open>VOtherMap\<close> for a map of any other type, \<open>VArray\<close> for an
  \<open>[]interface{}\<close>, \<open>VOtherSlice\<close> for any other slice or array and \<open>VOther\<close> for every
  remaining kind.
\<close>

datatype jvalue =
    VNil
  | VBool bool
  | VInt int
  | VFloat real
  | VFloat32 real
  | VString string
  | VJsonNumber string
  | VMap "(string \<times> jvalue) list"
  | VNilMap
  | VOtherMap
  | VArray "jvalue list"
  | VOtherSlice
  | VOther string

text \<open>A \<open>map[string]T\<close> that the code ranges over is an association list; \<open>m[k]\<close> is \<open>map_of\<close>.\<close>

type_synonym 'v gomap = "(string \<times> 'v) list"

section \<open>Schemas (package mqswag, db.go)\<close>

text \<open>
  \<open>SchemaRef\<close> is a struct with a reference string and a pointer \<open>Value\<close> to a \<open>Schema\<close>;
  a \<open>Schema\<close> points to further \<open>SchemaRef\<close>s through \<open>Properties\<close>, \<open>AllOf\<close> and \<open>Items\<close>.
  Pointers are addresses into an explicit store of schemas, so that shared and cyclic
  schema graphs are values of the model. A nil pointer is \<open>None\<close>; an address outside the
  store is treated like nil.
\<close>

type_synonym addr = nat

record SchemaRef =
  Ref :: string
  Value :: "addr option"

record Schema =
  Type :: string
  Description :: string
  Properties :: "SchemaRef gomap"
  AllOf :: "SchemaRef list"
  Items :: "SchemaRef option"
  Required :: "string list"
  Min :: "real option"
  Max :: "real option"
  MinLength :: nat
  MaxLength :: "nat option"
  Pattern :: string

type_synonym store = "addr \<Rightarrow> Schema option"

text \<open>
  \<open>Swagger\<close> (swagger.go) is not among the sources. \<open>db.go\<close> uses two things of it: the
  named schemas \<open>Components.Schemas\<close> and the method \<open>GetReferredSchema\<close>, which are taken
  as given, together with the memory the schema pointers lead into.
\<close>

record Swagger =
  Components_Schemas :: "SchemaRef gomap"
  GetReferredSchema :: "SchemaRef \<Rightarrow> (string \<times> SchemaRef) outcome"
  schema_store :: store

subsection \<open>Tags, library calls and helpers\<close>

text \<open>
  A \<open>MeqaTag\<close> is parsed out of a schema's description by \<open>GetMeqaTag\<close>; neither that
  function nor the constant \<open>FlagWeak\<close> is among the sources, so both are parameters, like
  the library calls of \<open>db.go\<close>: \<open>regexp.MatchString\<close> (false also when the pattern does not
  compile), \<open>fmt.Sprint\<close>, \<open>utf8.RuneCountInString\<close> and the two \<open>json.MarshalIndent\<close> dumps
  that end an error message.
\<close>

record MeqaTag =
  Class :: string
  Property :: string
  Flags :: int

record env =
  GetMeqaTag :: "string \<Rightarrow> MeqaTag option"
  FlagWeak :: int
  regexp_MatchString :: "string \<Rightarrow> string \<Rightarrow> bool"
  fmt_Sprint :: "jvalue \<Rightarrow> string"
  utf8_RuneCountInString :: "string \<Rightarrow> nat"
  json_MarshalIndent :: "Schema option \<Rightarrow> jvalue \<Rightarrow> string"

definition nil_dereference :: string where
  "nil_dereference = ''invalid memory address or nil pointer dereference''"

definition interface_conversion :: string where
  "interface_conversion = ''interface conversion''"

text \<open>\<open>schema.Value\<close> followed: the schema a \<open>SchemaRef\<close> points to, if its pointer is not nil.\<close>

definition deref :: "Swagger \<Rightarrow> SchemaRef \<Rightarrow> Schema option" where
  "deref swagger schema = (case Value schema of None \<Rightarrow> None | Some a \<Rightarrow> schema_store swagger a)"

text \<open>The test \<open>tag != nil && (tag.Flags&FlagWeak) != 0\<close> on the tag of a description.\<close>

definition tagged_Weak :: "env \<Rightarrow> Schema \<Rightarrow> bool" where
  "tagged_Weak E v =
     (case GetMeqaTag E (Description v) of
        None \<Rightarrow> False
      | Some tag \<Rightarrow> Flags tag AND FlagWeak E \<noteq> 0)"

fun strings_Contains :: "string \<Rightarrow> string \<Rightarrow> bool" where
  "strings_Contains [] substr = (substr = [])"
| "strings_Contains (c # cs) substr =
     (take (length substr) (c # cs) = substr \<or> strings_Contains cs substr)"

definition TYPE_ARRAY :: string where "TYPE_ARRAY = ''array''"
definition TYPE_BOOLEAN :: string where "TYPE_BOOLEAN = ''boolean''"
definition TYPE_INTEGER :: string where "TYPE_INTEGER = ''integer''"
definition TYPE_NUMBER :: string where "TYPE_NUMBER = ''number''"
definition TYPE_OBJECT :: string where "TYPE_OBJECT = ''object''"
definition TYPE_STRING :: string where "TYPE_STRING = ''string''"

text \<open>\<open>m[k] = v\<close> on a map kept as an association list.\<close>

definition gomap_assign :: "string \<Rightarrow> 'v \<Rightarrow> 'v gomap \<Rightarrow> 'v gomap" where
  "gomap_assign k v m =
     (if map_of m k = None then m @ [(k, v)]
      else map (\<lambda>(k', v'). if k' = k then (k', v) else (k', v')) m)"

subsection \<open>GetProperties\<close>

text \<open>
  \<open>GetProperties\<close> follows references until it finds properties, so it need not return: the
  first argument bounds the depth of the calls, and \<open>None\<close> says that the bound was reached.
  A nil map is the empty list. The members of \<open>AllOf\<close> are pointers that are taken to be
  non-nil.
\<close>

function (sequential) GetProperties ::
      "nat \<Rightarrow> Swagger \<Rightarrow> SchemaRef \<Rightarrow> SchemaRef gomap outcome option"
  and GetProperties_AllOf ::
      "nat \<Rightarrow> Swagger \<Rightarrow> SchemaRef list \<Rightarrow> SchemaRef gomap \<Rightarrow> SchemaRef gomap outcome option"
  where
  "GetProperties 0 swagger schema = None"
| "GetProperties (Suc n) swagger schema =
     (case deref swagger schema of
        None \<Rightarrow> Some (Panic nil_dereference)
      | Some v \<Rightarrow>
          if length (Properties v) > 0 then Some (Ok (Properties v))
          else
            (case GetReferredSchema swagger schema of
               Err e \<Rightarrow> Some (Ok [])
             | Panic m \<Rightarrow> Some (Panic m)
             | Ok (refName, referredSchema) \<Rightarrow>
                 if Value referredSchema \<noteq> None then GetProperties n swagger referredSchema
                 else if length (AllOf v) > 0 then GetProperties_AllOf n swagger (AllOf v) []
                 else Some (Ok [])))"
| "GetProperties_AllOf n swagger [] properties = Some (Ok properties)"
| "GetProperties_AllOf n swagger (s # rest) properties =
     (case GetProperties n swagger s of
        None \<Rightarrow> None
      | Some (Panic m) \<Rightarrow> Some (Panic m)
      | Some (Err e) \<Rightarrow> Some (Err e)
      | Some (Ok p) \<Rightarrow>
          GetProperties_AllOf n swagger rest
            (foldl (\<lambda>properties (k, v). gomap_assign k v properties) properties p))"
  by pat_completeness auto
termination
  by (relation "inv_image (less_than <*lex*> less_than)
        (\<lambda>x. case x of
           Inl (n, sw, s) \<Rightarrow> (n, 0::nat)
         | Inr (n, sw, ss, ps) \<Rightarrow> (n, Suc (length ss)))")
     auto

declare GetProperties.simps [simp del]

subsection \<open>Validate\<close>

text \<open>
  \<open>Validate\<close>. The type assertions \<open>c.(string)\<close> and \<open>c.(float64)\<close> panic when the value has
  another type; \<open>c.(float64)\<close> is evaluated only where the bound before it is declared.
\<close>

definition Validate_bounds :: "Schema \<Rightarrow> jvalue \<Rightarrow> bool outcome" where
  "Validate_bounds v c =
     (let above_Max = (case Max v of
                         None \<Rightarrow> Ok False
                       | Some hi \<Rightarrow> (case c of VFloat x \<Rightarrow> Ok (x > hi)
                                               | _ \<Rightarrow> Panic interface_conversion))
      in case Min v of
           None \<Rightarrow> above_Max
         | Some lo \<Rightarrow> (case c of
                         VFloat x \<Rightarrow> if lo > x then Ok True else above_Max
                       | _ \<Rightarrow> Panic interface_conversion))"

definition Validate :: "env \<Rightarrow> Swagger \<Rightarrow> SchemaRef \<Rightarrow> jvalue \<Rightarrow> bool outcome" where
  "Validate E swagger s c =
     (case deref swagger s of
        None \<Rightarrow> Panic nil_dereference
      | Some v \<Rightarrow>
          (let first =
             (if Type v = TYPE_STRING then
                (case c of
                   VString str \<Rightarrow>
                     (let len = utf8_RuneCountInString E str in
                      if MinLength v > len \<or>
                         (case MaxLength v of None \<Rightarrow> False | Some hi \<Rightarrow> len > hi)
                      then Ok False else Ok True)
                 | _ \<Rightarrow> Panic interface_conversion)
              else if Type v = TYPE_NUMBER \<or> Type v = TYPE_INTEGER then
                (case Validate_bounds v c of
                   Ok outside \<Rightarrow> Ok (\<not> outside)
                 | Err e \<Rightarrow> Err e
                 | Panic m \<Rightarrow> Panic m)
              else Ok True)
           in case first of
                Ok True \<Rightarrow>
                  if length (Pattern v) > 0 \<and> \<not> regexp_MatchString E (Pattern v) (fmt_Sprint E c)
                  then Ok False else Ok True
              | other \<Rightarrow> other))"

subsection \<open>Parses and Matches\<close>

type_synonym collection = "string \<Rightarrow> jvalue list"

definition collect :: "collection \<Rightarrow> string \<Rightarrow> jvalue \<Rightarrow> collection" where
  "collect collection key object = collection(key := collection key @ [object])"

definition raiseError :: "env \<Rightarrow> Swagger \<Rightarrow> SchemaRef \<Rightarrow> jvalue \<Rightarrow> string \<Rightarrow> error" where
  "raiseError E swagger schema object msg =
     errors_New (''schema and object don't match - '' @ msg @
                 json_MarshalIndent E (deref swagger schema) object)"

text \<open>
  \<open>reflect.TypeOf(object).Kind()\<close>, as far as \<open>Parses\<close> tells the kinds apart, and the two
  checked type assertions \<open>object.(map[string]interface{})\<close> and \<open>object.([]interface{})\<close>.
\<close>

datatype Kind = reflect_Bool | reflect_Int | reflect_Float | reflect_String | reflect_Map
  | reflect_Slice | reflect_Other string

fun reflect_Kind :: "jvalue \<Rightarrow> Kind" where
  "reflect_Kind (VBool b) = reflect_Bool"
| "reflect_Kind (VInt i) = reflect_Int"
| "reflect_Kind (VFloat x) = reflect_Float"
| "reflect_Kind (VFloat32 x) = reflect_Float"
| "reflect_Kind (VString str) = reflect_String"
| "reflect_Kind (VJsonNumber str) = reflect_String"
| "reflect_Kind (VMap m) = reflect_Map"
| "reflect_Kind VNilMap = reflect_Map"
| "reflect_Kind VOtherMap = reflect_Map"
| "reflect_Kind (VArray ar) = reflect_Slice"
| "reflect_Kind VOtherSlice = reflect_Slice"
| "reflect_Kind (VOther kind) = reflect_Other kind"
| "reflect_Kind VNil = reflect_Other ''invalid''"

fun as_map :: "jvalue \<Rightarrow> jvalue gomap option" where
  "as_map (VMap m) = Some m"
| "as_map VNilMap = Some []"
| "as_map object = None"

fun as_slice :: "jvalue \<Rightarrow> jvalue list option" where
  "as_slice (VArray ar) = Some ar"
| "as_slice object = None"

fun is_json_Number :: "jvalue \<Rightarrow> bool" where
  "is_json_Number (VJsonNumber str) = True"
| "is_json_Number object = False"

text \<open>
  The checks of \<open>Parses\<close> for the kinds Bool, Int to Uint64, Float32/Float64 and String:
  the declared type must contain a fitting type name, and \<open>Validate\<close> must accept the value.
\<close>

definition Parses_value ::
  "env \<Rightarrow> Swagger \<Rightarrow> SchemaRef \<Rightarrow> Schema \<Rightarrow> jvalue \<Rightarrow> unit outcome" where
  "Parses_value E swagger schema v object =
     (let k = reflect_Kind object;
          validated = (\<lambda>msg. case Validate E swagger schema object of
                               Ok True \<Rightarrow> Ok ()
                             | Ok False \<Rightarrow> Err (raiseError E swagger schema object msg)
                             | Err e \<Rightarrow> Err e
                             | Panic m \<Rightarrow> Panic m);
          numeric = strings_Contains (Type v) TYPE_INTEGER \<or> strings_Contains (Type v) TYPE_NUMBER
      in if k = reflect_Bool then
           (if \<not> strings_Contains (Type v) TYPE_BOOLEAN
            then Err (raiseError E swagger schema object ''schema is not a boolean'')
            else Ok ())
         else if k = reflect_Int then
           (if \<not> numeric
            then Err (raiseError E swagger schema object ''schema is not an integer'')
            else validated ''integer validation failed'')
         else if k = reflect_Float then
           (if \<not> numeric
            then Err (raiseError E swagger schema object ''schema is not a floating point number'')
            else validated ''float validation failed'')
         else
           (let bothAreNumbers = (is_json_Number object \<and> numeric) in
            if strings_Contains (Type v) TYPE_STRING then validated ''string validation failed''
            else if \<not> bothAreNumbers
            then Err (raiseError E swagger schema object ''schema is not a number'')
            else Ok ()))"

text \<open>
  The end of \<open>Parses\<close> for these kinds: outside a reference-following parse, a value whose
  schema is tagged with a class and a property is collected under \<open>class.property\<close>.
\<close>

definition collect_tagged :: "env \<Rightarrow> Schema \<Rightarrow> jvalue \<Rightarrow> bool \<Rightarrow> collection \<Rightarrow> collection" where
  "collect_tagged E v object followRef collection =
     (if \<not> followRef then
        (case GetMeqaTag E (Description v) of
           None \<Rightarrow> collection
         | Some tag \<Rightarrow>
             if length (Class tag) > 0 \<and> length (Property tag) > 0
             then collect collection (Class tag @ ''.'' @ Property tag) object
             else collection)
      else collection)"

text \<open>The first required name that the object lacks, if there is one.\<close>

definition missing_required :: "string list \<Rightarrow> jvalue gomap \<Rightarrow> string option" where
  "missing_required required objMap = find (\<lambda>requiredName. map_of objMap requiredName = None) required"

text \<open>
  \<open>Parses\<close> with its three loops: over the members of \<open>AllOf\<close>, over the fields of the
  object, and over the elements of an array. The loops hand on the collection, since a
  failing parse leaves behind what it collected before. The first argument bounds the depth
  of the calls; \<open>None\<close> says that the bound was reached.
\<close>

function (sequential) Parses ::
      "nat \<Rightarrow> env \<Rightarrow> Swagger \<Rightarrow> string \<Rightarrow> SchemaRef \<Rightarrow> jvalue \<Rightarrow> collection \<Rightarrow> bool
         \<Rightarrow> (unit outcome \<times> collection) option"
  and Parses_AllOf ::
      "nat \<Rightarrow> env \<Rightarrow> Swagger \<Rightarrow> SchemaRef list \<Rightarrow> jvalue gomap \<Rightarrow> nat \<Rightarrow> collection \<Rightarrow> bool
         \<Rightarrow> (nat outcome \<times> collection) option"
  and Parses_fields ::
      "nat \<Rightarrow> env \<Rightarrow> Swagger \<Rightarrow> SchemaRef gomap \<Rightarrow> jvalue gomap \<Rightarrow> nat \<Rightarrow> collection \<Rightarrow> bool
         \<Rightarrow> (nat outcome \<times> collection) option"
  and Parses_items ::
      "nat \<Rightarrow> env \<Rightarrow> Swagger \<Rightarrow> SchemaRef \<Rightarrow> jvalue list \<Rightarrow> collection \<Rightarrow> bool
         \<Rightarrow> (unit outcome \<times> collection) option"
  where
  "Parses 0 E swagger name schema object collection followRef = None"
| "Parses (Suc n) E swagger name schema object collection followRef =
     (if object = VNil then Some (Ok (), collection)
      else
        (case GetReferredSchema swagger schema of
           Err e \<Rightarrow> Some (Err e, collection)
         | Panic m \<Rightarrow> Some (Panic m, collection)
         | Ok (refName, referredSchema) \<Rightarrow>
             if Value referredSchema \<noteq> None then
               (if \<not> followRef then Some (Ok (), collection)
                else Parses n E swagger refName referredSchema object collection followRef)
             else
               (case deref swagger schema of
                  None \<Rightarrow> Some (Panic nil_dereference, collection)
                | Some v \<Rightarrow>
                    if length (AllOf v) > 0 then
                      (case (case object of VMap m \<Rightarrow> Some m | _ \<Rightarrow> None) of
                         Some objMap \<Rightarrow>
                           (case Parses_AllOf n E swagger (AllOf v) objMap 0 collection followRef of
                              None \<Rightarrow> None
                            | Some (Panic m, collection') \<Rightarrow> Some (Panic m, collection')
                            | Some (Err e, collection') \<Rightarrow> Some (Err e, collection')
                            | Some (Ok count, collection') \<Rightarrow>
                                if count * 4 < length objMap * 3 then
                                  Some (Err (raiseError E swagger schema object
                                               ''too many mismatched fields''), collection')
                                else if length name > 0
                                then Some (Ok (), collect collection' name object)
                                else Some (Ok (), collection'))
                       | None \<Rightarrow> Some (Err (raiseError E swagger schema object
                                               ''object is not a map''), collection))
                    else
                      (let k = reflect_Kind object in
                       if k = reflect_Bool \<or> k = reflect_Int \<or> k = reflect_Float \<or> k = reflect_String then
                         (case Parses_value E swagger schema v object of
                            Ok u \<Rightarrow> Some (Ok (), collect_tagged E v object followRef collection)
                          | Err e \<Rightarrow> Some (Err e, collection)
                          | Panic m \<Rightarrow> Some (Panic m, collection))
                       else if k = reflect_Map then
                         (case as_map object of
                            None \<Rightarrow> Some (Err (raiseError E swagger schema object
                                                  ''schema is not an object''), collection)
                          | Some objMap \<Rightarrow>
                              (case missing_required (Required v) objMap of
                                 Some requiredName \<Rightarrow>
                                   Some (Err (raiseError E swagger schema object
                                                (''required field not present: '' @ requiredName)),
                                         collection)
                               | None \<Rightarrow>
                                   (case Parses_fields n E swagger (Properties v) objMap 0
                                           collection followRef of
                                      None \<Rightarrow> None
                                    | Some (Panic m, collection') \<Rightarrow> Some (Panic m, collection')
                                    | Some (Err e, collection') \<Rightarrow> Some (Err e, collection')
                                    | Some (Ok count, collection') \<Rightarrow>
                                        if count * 4 < length objMap * 3 then
                                          Some (Err (raiseError E swagger schema object
                                                       ''too many mis-matched fields''),
                                                collection')
                                        else if length name > 0
                                        then Some (Ok (), collect collection' name object)
                                        else Some (Ok (), collection'))))
                       else if k = reflect_Slice then
                         (if \<not> strings_Contains (Type v) TYPE_ARRAY then
                            Some (Err (raiseError E swagger schema object
                                         ''schema is not an array''), collection)
                          else
                            (case Items v of
                               None \<Rightarrow> Some (Panic nil_dereference, collection)
                             | Some itemsSchema \<Rightarrow>
                                 if Value itemsSchema = None then
                                   Some (Err (raiseError E swagger schema object
                                                ''item schema is null''), collection)
                                 else
                                   (case as_slice object of
                                      None \<Rightarrow> Some (Panic interface_conversion, collection)
                                    | Some ar \<Rightarrow>
                                        Parses_items n E swagger itemsSchema ar collection
                                          followRef)))
                       else
                         Some (Err (raiseError E swagger schema object
                                      (''unknown type: '' @ (case k of reflect_Other kind \<Rightarrow> kind
                                                                     | _ \<Rightarrow> []))),
                               collection)))))"
| "Parses_AllOf n E swagger [] objMap count collection followRef = Some (Ok count, collection)"
| "Parses_AllOf n E swagger (s # rest) objMap count collection followRef =
     (case GetProperties n swagger s of
        None \<Rightarrow> None
      | Some (Panic m) \<Rightarrow> Some (Panic m, collection)
      | Some (Err e) \<Rightarrow> Some (Err e, collection)
      | Some (Ok p) \<Rightarrow>
          if length p = 0 then Parses_AllOf n E swagger rest objMap count collection followRef
          else
            (let m = List.map_filter (\<lambda>k. map_option (Pair k) (map_of objMap k)) (map fst p);
                 count' = count + length m
             in case Parses n E swagger [] s (VMap m) collection followRef of
                  None \<Rightarrow> None
                | Some (Panic msg, collection') \<Rightarrow> Some (Panic msg, collection')
                | Some (Err e, collection') \<Rightarrow> Some (Err e, collection')
                | Some (Ok u, collection') \<Rightarrow>
                    Parses_AllOf n E swagger rest objMap count' collection' followRef))"
| "Parses_fields n E swagger properties [] count collection followRef = Some (Ok count, collection)"
| "Parses_fields n E swagger properties ((propertyName, objProperty) # rest) count collection
       followRef =
     (case map_of properties propertyName of
        None \<Rightarrow> Parses_fields n E swagger properties rest count collection followRef
      | Some propertySchema \<Rightarrow>
          (case Parses n E swagger [] propertySchema objProperty collection followRef of
             None \<Rightarrow> None
           | Some (Panic msg, collection') \<Rightarrow> Some (Panic msg, collection')
           | Some (Err e, collection') \<Rightarrow> Some (Err e, collection')
           | Some (Ok u, collection') \<Rightarrow>
               Parses_fields n E swagger properties rest (count + 1) collection' followRef))"
| "Parses_items n E swagger itemsSchema [] collection followRef = Some (Ok (), collection)"
| "Parses_items n E swagger itemsSchema (item # rest) collection followRef =
     (case Parses n E swagger [] itemsSchema item collection followRef of
        None \<Rightarrow> None
      | Some (Panic msg, collection') \<Rightarrow> Some (Panic msg, collection')
      | Some (Err e, collection') \<Rightarrow> Some (Err e, collection')
      | Some (Ok u, collection') \<Rightarrow> Parses_items n E swagger itemsSchema rest collection' followRef)"
  by pat_completeness auto
termination
  by (relation "inv_image (less_than <*lex*> less_than)
        (\<lambda>x. case x of
           Inl (Inl (n, E, sw, nm, s, ob, c, f)) \<Rightarrow> (n, 0::nat)
         | Inl (Inr (n, E, sw, ss, om, k, c, f)) \<Rightarrow> (n, Suc (length ss))
         | Inr (Inl (n, E, sw, ps, om, k, c, f)) \<Rightarrow> (n, Suc (length om))
         | Inr (Inr (n, E, sw, s, items, c, f)) \<Rightarrow> (n, Suc (length items)))")
     auto

declare Parses.simps [simp del]

text \<open>\<open>Matches\<close>: a parse into a fresh collection, following references, returns no error.\<close>

definition Matches :: "nat \<Rightarrow> env \<Rightarrow> Swagger \<Rightarrow> SchemaRef \<Rightarrow> jvalue \<Rightarrow> bool outcome option" where
  "Matches n E swagger schema object =
     (case Parses n E swagger [] schema object (\<lambda>key. []) True of
        None \<Rightarrow> None
      | Some (Ok u, collection) \<Rightarrow> Some (Ok True)
      | Some (Err e, collection) \<Rightarrow> Some (Ok False)
      | Some (Panic m, collection) \<Rightarrow> Some (Panic m))"

subsection \<open>Iterate\<close>

text \<open>
  A \<open>SchemaIterator\<close> is called with a schema name, a schema and a context; it returns an
  error or nil and may change the context, which the model hands on. \<open>Iterate\<close> calls
  itself on the members of \<open>AllOf\<close>, on the properties (in the order the map is ranged over)
  and on the item schema; the first argument bounds the depth of these calls, and \<open>None\<close>
  says that the bound was reached.
\<close>

type_synonym 'c SchemaIterator = "string \<Rightarrow> SchemaRef \<Rightarrow> 'c \<Rightarrow> unit outcome \<times> 'c"

function (sequential) Iterate ::
      "nat \<Rightarrow> env \<Rightarrow> Swagger \<Rightarrow> 'c SchemaIterator \<Rightarrow> SchemaRef \<Rightarrow> bool \<Rightarrow> 'c
         \<Rightarrow> (unit outcome \<times> 'c) option"
  and Iterate_all ::
      "nat \<Rightarrow> env \<Rightarrow> Swagger \<Rightarrow> 'c SchemaIterator \<Rightarrow> SchemaRef list \<Rightarrow> bool \<Rightarrow> 'c
         \<Rightarrow> (unit outcome \<times> 'c) option"
  where
  "Iterate 0 E swagger iterFunc schema followWeak context = None"
| "Iterate (Suc n) E swagger iterFunc schema followWeak context =
     (case deref swagger schema of
        None \<Rightarrow> Some (Panic nil_dereference, context)
      | Some v \<Rightarrow>
          if tagged_Weak E v \<and> \<not> followWeak then Some (Ok (), context)
          else
            (case iterFunc [] schema context of
               (Err e, context') \<Rightarrow> Some (Err e, context')
             | (Panic m, context') \<Rightarrow> Some (Panic m, context')
             | (Ok u, context') \<Rightarrow>
                 if length (AllOf v) > 0 then
                   Iterate_all n E swagger iterFunc (AllOf v) followWeak context'
                 else
                   (case GetReferredSchema swagger schema of
                      Err e \<Rightarrow> Some (Err e, context')
                    | Panic m \<Rightarrow> Some (Panic m, context')
                    | Ok (referenceName, referredSchema) \<Rightarrow>
                        if Value referredSchema \<noteq> None then
                          (case deref swagger referredSchema of
                             None \<Rightarrow> Some (Panic nil_dereference, context')
                           | Some rv \<Rightarrow>
                               if tagged_Weak E rv \<and> \<not> followWeak then Some (Ok (), context')
                               else Some (iterFunc referenceName referredSchema context'))
                        else
                          (case (if strings_Contains (Type v) TYPE_OBJECT
                                 then Iterate_all n E swagger iterFunc (map snd (Properties v))
                                        followWeak context'
                                 else Some (Ok (), context')) of
                             None \<Rightarrow> None
                           | Some (Err e, context'') \<Rightarrow> Some (Err e, context'')
                           | Some (Panic m, context'') \<Rightarrow> Some (Panic m, context'')
                           | Some (Ok u, context'') \<Rightarrow>
                               if strings_Contains (Type v) TYPE_ARRAY then
                                 (case Items v of
                                    None \<Rightarrow> Some (Panic nil_dereference, context'')
                                  | Some itemSchema \<Rightarrow>
                                      Iterate n E swagger iterFunc itemSchema followWeak context'')
                               else Some (Ok (), context'')))))"
| "Iterate_all n E swagger iterFunc [] followWeak context = Some (Ok (), context)"
| "Iterate_all n E swagger iterFunc (s # rest) followWeak context =
     (case Iterate n E swagger iterFunc s followWeak context of
        None \<Rightarrow> None
      | Some (Err e, context') \<Rightarrow> Some (Err e, context')
      | Some (Panic m, context') \<Rightarrow> Some (Panic m, context')
      | Some (Ok u, context') \<Rightarrow> Iterate_all n E swagger iterFunc rest followWeak context')"
  by pat_completeness auto
termination
  by (relation "inv_image (less_than <*lex*> less_than)
        (\<lambda>x. case x of
           Inl (n, E, sw, f, s, w, c) \<Rightarrow> (n, 0::nat)
         | Inr (n, E, sw, f, ss, w, c) \<Rightarrow> (n, Suc (length ss)))")
     auto

declare Iterate.simps [simp del]

text \<open>
  The visitor that only records its calls, and the schemas that \<open>Iterate\<close> calls itself on
  from a given schema when weak references are not followed.
\<close>

definition log_visitor :: "(string \<times> SchemaRef) list SchemaIterator" where
  "log_visitor schemaName schema context = (Ok (), context @ [(schemaName, schema)])"

definition Iterate_children :: "env \<Rightarrow> Swagger \<Rightarrow> SchemaRef \<Rightarrow> SchemaRef list" where
  "Iterate_children E swagger schema =
     (case deref swagger schema of
        None \<Rightarrow> []
      | Some v \<Rightarrow>
          if tagged_Weak E v then []
          else if length (AllOf v) > 0 then AllOf v
          else
            (case GetReferredSchema swagger schema of
               Ok (referenceName, referredSchema) \<Rightarrow>
                 if Value referredSchema \<noteq> None then []
                 else (if strings_Contains (Type v) TYPE_OBJECT then map snd (Properties v) else [])
                      @ (if strings_Contains (Type v) TYPE_ARRAY
                         then (case Items v of None \<Rightarrow> [] | Some itemSchema \<Rightarrow> [itemSchema])
                         else [])
             | _ \<Rightarrow> []))"

text \<open>
  What a traversal that does not follow weak references may call the visitor on: a schema
  that is not tagged Weak, either under the empty name or under the name that a schema
  not tagged Weak refers to it by. \<open>visits_added\<close> says that a log extends another one by
  such calls only.
\<close>

definition visit_allowed :: "env \<Rightarrow> Swagger \<Rightarrow> string \<Rightarrow> SchemaRef \<Rightarrow> bool" where
  "visit_allowed E swagger schemaName schema =
     ((\<exists>v. deref swagger schema = Some v \<and> \<not> tagged_Weak E v) \<and>
      (schemaName = [] \<or>
       (\<exists>x v. deref swagger x = Some v \<and> \<not> tagged_Weak E v \<and>
              GetReferredSchema swagger x = Ok (schemaName, schema))))"

definition visits_added ::
  "env \<Rightarrow> Swagger \<Rightarrow> (string \<times> SchemaRef) list \<Rightarrow> (string \<times> SchemaRef) list \<Rightarrow> bool" where
  "visits_added E swagger before after =
     (\<exists>new. after = before @ new \<and> list_all (\<lambda>(schemaName, schema). visit_allowed E swagger schemaName schema) new)"

text \<open>
  The fields of an object that a member of an \<open>AllOf\<close> recognizes: the map \<open>m\<close> that the loop
  of \<open>Parses\<close> builds for the member (empty when the member has no properties).
\<close>

definition recognized :: "nat \<Rightarrow> Swagger \<Rightarrow> jvalue gomap \<Rightarrow> SchemaRef \<Rightarrow> jvalue gomap" where
  "recognized n swagger objMap s =
     (case GetProperties n swagger s of
        Some (Ok p) \<Rightarrow> List.map_filter (\<lambda>k. map_option (Pair k) (map_of objMap k)) (map fst p)
      | _ \<Rightarrow> [])"

text \<open>
  A visit through a reference: the visitor is called on what a schema not tagged Weak refers
  to. \<open>visit_below\<close> holds of a visit under the empty name of a schema whose rank is below
  a bound, and of every visit through a reference.
\<close>

definition reference_visit :: "env \<Rightarrow> Swagger \<Rightarrow> string \<Rightarrow> SchemaRef \<Rightarrow> bool" where
  "reference_visit E swagger schemaName schema =
     (\<exists>x v. deref swagger x = Some v \<and> \<not> tagged_Weak E v \<and>
            GetReferredSchema swagger x = Ok (schemaName, schema))"

definition visit_below ::
  "env \<Rightarrow> Swagger \<Rightarrow> (SchemaRef \<Rightarrow> nat) \<Rightarrow> nat \<Rightarrow> string \<times> SchemaRef \<Rightarrow> bool" where
  "visit_below E swagger rank b entry =
     (case entry of (schemaName, schema) \<Rightarrow>
        (schemaName = [] \<and> rank schema < b) \<or> reference_visit E swagger schemaName schema)"

section \<open>The in-memory object store (db.go)\<close>

record DBEntry =
  Data :: jvalue
  Associations :: "jvalue gomap"

record SchemaDB =
  Name :: string
  Schema :: SchemaRef
  NoHistory :: bool
  Objects :: "DBEntry list"

text \<open>
  \<open>DB.schemas\<close> maps a name to a \<open>*SchemaDB\<close>; a missing key reads as nil. The mutex is
  left out: every operation holds it from entry to return, and the model is sequential.
\<close>

record DB =
  schemas :: "string \<Rightarrow> SchemaDB option"
  DB_Swagger :: Swagger

text \<open>
  Package \<open>mqutil\<close> is not among the sources; \<open>InterfaceEquals\<close> and \<open>MapCombine\<close> are
  parameters of the operations that call them. The second argument of \<open>InterfaceEquals\<close>
  is \<open>entry.Associations[className]\<close>, which is the nil map when the key is absent.
\<close>

record mqutil =
  InterfaceEquals :: "jvalue \<Rightarrow> jvalue option \<Rightarrow> bool"
  MapCombine :: "jvalue \<Rightarrow> jvalue \<Rightarrow> jvalue"

type_synonym MatchFunc = "jvalue \<Rightarrow> jvalue \<Rightarrow> bool"

definition MatchAlways :: MatchFunc where
  "MatchAlways criteria existing = True"

definition DBEntry_Matches ::
  "mqutil \<Rightarrow> DBEntry \<Rightarrow> jvalue \<Rightarrow> jvalue gomap \<Rightarrow> MatchFunc \<Rightarrow> bool" where
  "DBEntry_Matches u entry criteria associations matches =
     (if list_ex (\<lambda>(className, classAssociation).
           \<not> InterfaceEquals u classAssociation (map_of (Associations entry) className))
         associations
      then False
      else matches criteria (Data entry))"

text \<open>
  \<open>SchemaDB.Insert\<close>: the type assertion \<open>obj.(map[string]interface{})\<close> panics unless the
  object is a map of exactly that type (possibly nil); it is evaluated only when history
  is kept.
\<close>

definition SchemaDB_Insert :: "jvalue \<Rightarrow> jvalue gomap \<Rightarrow> SchemaDB \<Rightarrow> SchemaDB outcome" where
  "SchemaDB_Insert obj associations db =
     (if \<not> NoHistory db then
        (case obj of
           VMap m \<Rightarrow> Ok (db\<lparr>Objects := Objects db @ [\<lparr>Data = obj, Associations = associations\<rparr>]\<rparr>)
         | VNilMap \<Rightarrow> Ok (db\<lparr>Objects := Objects db @ [\<lparr>Data = obj, Associations = associations\<rparr>]\<rparr>)
         | _ \<Rightarrow> Panic ''interface conversion: interface {} is not map[string]interface {}'')
      else Ok db)"

definition SchemaDB_CloneSchema :: "SchemaDB \<Rightarrow> SchemaDB" where
  "SchemaDB_CloneSchema db =
     \<lparr>Name = Name db, Schema = Schema db, NoHistory = NoHistory db, Objects = []\<rparr>"

fun Find_loop ::
  "(DBEntry \<Rightarrow> bool) \<Rightarrow> int \<Rightarrow> jvalue list \<Rightarrow> DBEntry list \<Rightarrow> jvalue list" where
  "Find_loop P desiredCount result [] = result"
| "Find_loop P desiredCount result (entry # rest) =
     (if P entry then
        (let result' = result @ [Data entry] in
         if desiredCount \<ge> 0 \<and> int (length result') \<ge> desiredCount then result'
         else Find_loop P desiredCount result' rest)
      else Find_loop P desiredCount result rest)"

definition SchemaDB_Find ::
  "mqutil \<Rightarrow> jvalue \<Rightarrow> jvalue gomap \<Rightarrow> MatchFunc \<Rightarrow> int \<Rightarrow> SchemaDB \<Rightarrow> jvalue list" where
  "SchemaDB_Find u criteria associations matches desiredCount db =
     Find_loop (\<lambda>entry. DBEntry_Matches u entry criteria associations matches)
       desiredCount [] (Objects db)"

text \<open>
  \<open>SchemaDB.Delete\<close>: the loop ranges over the indices of \<open>db.Objects\<close> and overwrites slot
  \<open>i\<close> with slot \<open>count\<close> at every match; afterwards the first \<open>count\<close> slots are cut off.
  \<open>count \<le> i\<close> holds throughout, so both reads are in range.
\<close>

function Delete_loop ::
  "(DBEntry \<Rightarrow> bool) \<Rightarrow> int \<Rightarrow> nat \<Rightarrow> nat \<Rightarrow> DBEntry list \<Rightarrow> nat \<times> DBEntry list" where
  "Delete_loop P desiredCount i count objs =
     (if i < length objs then
        (if P (objs ! i) then
           (let objs' = objs[i := objs ! count]; count' = count + 1 in
            if desiredCount \<ge> 0 \<and> int count' \<ge> desiredCount then (count', objs')
            else Delete_loop P desiredCount (i + 1) count' objs')
         else Delete_loop P desiredCount (i + 1) count objs)
      else (count, objs))"
  by pat_completeness auto
termination
  by (relation "measure (\<lambda>(P, d, i, c, objs). length objs - i)") auto

declare Delete_loop.simps [simp del]

definition SchemaDB_Delete ::
  "mqutil \<Rightarrow> jvalue \<Rightarrow> jvalue gomap \<Rightarrow> MatchFunc \<Rightarrow> int \<Rightarrow> SchemaDB \<Rightarrow> nat \<times> SchemaDB" where
  "SchemaDB_Delete u criteria associations matches desiredCount db =
     (case Delete_loop (\<lambda>entry. DBEntry_Matches u entry criteria associations matches)
             desiredCount 0 0 (Objects db) of
        (count, objs) \<Rightarrow> (count, db\<lparr>Objects := drop count objs\<rparr>))"

fun Update_loop ::
  "mqutil \<Rightarrow> (DBEntry \<Rightarrow> bool) \<Rightarrow> jvalue \<Rightarrow> int \<Rightarrow> bool \<Rightarrow> nat \<Rightarrow> DBEntry list
     \<Rightarrow> nat \<times> DBEntry list" where
  "Update_loop u P newObj desiredCount patch count [] = (count, [])"
| "Update_loop u P newObj desiredCount patch count (entry # rest) =
     (if P entry then
        (let entry' = (if patch then entry\<lparr>Data := MapCombine u (Data entry) newObj\<rparr>
                       else entry\<lparr>Data := newObj\<rparr>);
             count' = count + 1 in
         if desiredCount \<ge> 0 \<and> int count' \<ge> desiredCount then (count', entry' # rest)
         else (case Update_loop u P newObj desiredCount patch count' rest of
                 (c, rest') \<Rightarrow> (c, entry' # rest')))
      else (case Update_loop u P newObj desiredCount patch count rest of
              (c, rest') \<Rightarrow> (c, entry # rest')))"

definition SchemaDB_Update ::
  "mqutil \<Rightarrow> jvalue \<Rightarrow> jvalue gomap \<Rightarrow> MatchFunc \<Rightarrow> jvalue \<Rightarrow> int \<Rightarrow> bool \<Rightarrow> SchemaDB
     \<Rightarrow> nat \<times> SchemaDB" where
  "SchemaDB_Update u criteria associations matches newObj desiredCount patch db =
     (case Update_loop u (\<lambda>entry. DBEntry_Matches u entry criteria associations matches)
             newObj desiredCount patch 0 (Objects db) of
        (count, objs) \<Rightarrow> (count, db\<lparr>Objects := objs\<rparr>))"

text \<open>
  \<open>DB.Init\<close>: one empty collection per named schema. A name met twice only logs a warning
  and the later schema replaces the earlier one.
\<close>

definition DB_Init :: "Swagger \<Rightarrow> DB" where
  "DB_Init s =
     \<lparr>schemas = foldl (\<lambda>m (schemaName, schema).
                  m(schemaName \<mapsto> \<lparr>Name = schemaName, Schema = schema, NoHistory = False,
                                   Objects = []\<rparr>))
                (\<lambda>_. None) (Components_Schemas s),
      DB_Swagger = s\<rparr>"

definition DB_CloneSchema :: "DB \<Rightarrow> DB" where
  "DB_CloneSchema db =
     \<lparr>schemas = (\<lambda>k. map_option SchemaDB_CloneSchema (schemas db k)),
      DB_Swagger = DB_Swagger db\<rparr>"

definition DB_GetSchema :: "DB \<Rightarrow> string \<Rightarrow> SchemaRef" where
  "DB_GetSchema db name =
     (case schemas db name of
        None \<Rightarrow> \<lparr>Ref = [], Value = None\<rparr>
      | Some sdb \<Rightarrow> Schema sdb)"

definition CopyWithoutClass :: "'v gomap \<Rightarrow> string \<Rightarrow> 'v gomap" where
  "CopyWithoutClass src className = filter (\<lambda>(k, v). k \<noteq> className) src"

text \<open>
  The store operations return the store they leave behind next to their result. An
  operation that returns an error value returns the store as it found it.
\<close>

definition DB_Insert :: "string \<Rightarrow> jvalue \<Rightarrow> jvalue gomap \<Rightarrow> DB \<Rightarrow> unit outcome \<times> DB" where
  "DB_Insert name obj associations db =
     (case schemas db name of
        None \<Rightarrow>
          (Err (NewError ErrInternal (''inserting into non-existing schema: '' @ name)), db)
      | Some sdb \<Rightarrow>
          (case SchemaDB_Insert obj (CopyWithoutClass associations name) sdb of
             Ok sdb' \<Rightarrow> (Ok (), db\<lparr>schemas := (schemas db)(name \<mapsto> sdb')\<rparr>)
           | Err e \<Rightarrow> (Err e, db)
           | Panic msg \<Rightarrow> (Panic msg, db)))"

definition DB_Find ::
  "mqutil \<Rightarrow> string \<Rightarrow> jvalue \<Rightarrow> jvalue gomap \<Rightarrow> MatchFunc \<Rightarrow> int \<Rightarrow> DB \<Rightarrow> jvalue list \<times> DB" where
  "DB_Find u name criteria associations matches desiredCount db =
     (case schemas db name of
        None \<Rightarrow> ([], db)
      | Some sdb \<Rightarrow>
          (SchemaDB_Find u criteria (CopyWithoutClass associations name) matches desiredCount sdb,
           db))"

definition DB_Delete ::
  "mqutil \<Rightarrow> string \<Rightarrow> jvalue \<Rightarrow> jvalue gomap \<Rightarrow> MatchFunc \<Rightarrow> int \<Rightarrow> DB \<Rightarrow> nat \<times> DB" where
  "DB_Delete u name criteria associations matches desiredCount db =
     (case schemas db name of
        None \<Rightarrow> (0, db)
      | Some sdb \<Rightarrow>
          (case SchemaDB_Delete u criteria (CopyWithoutClass associations name) matches
                  desiredCount sdb of
             (count, sdb') \<Rightarrow> (count, db\<lparr>schemas := (schemas db)(name \<mapsto> sdb')\<rparr>)))"

definition DB_Update ::
  "mqutil \<Rightarrow> string \<Rightarrow> jvalue \<Rightarrow> jvalue gomap \<Rightarrow> MatchFunc \<Rightarrow> jvalue \<Rightarrow> int \<Rightarrow> bool \<Rightarrow> DB
     \<Rightarrow> nat \<times> DB" where
  "DB_Update u name criteria associations matches newObj desiredCount patch db =
     (case schemas db name of
        None \<Rightarrow> (0, db)
      | Some sdb \<Rightarrow>
          (case SchemaDB_Update u criteria (CopyWithoutClass associations name) matches newObj
                  desiredCount patch sdb of
             (count, sdb') \<Rightarrow> (count, db\<lparr>schemas := (schemas db)(name \<mapsto> sdb')\<rparr>)))"

subsection \<open>The association invariant and the reachable stores\<close>

text \<open>
  The invariant of the store: every collection is registered under its own name, and no
  entry of a collection carries an association keyed by that name. \<open>reachable\<close> are the
  stores that \<open>Init\<close> builds and the store operations lead to (\<open>Find\<close> changes nothing).
\<close>

definition assoc_isolated :: "DB \<Rightarrow> bool" where
  "assoc_isolated db =
     (\<forall>name sdb. schemas db name = Some sdb \<longrightarrow>
        Name sdb = name \<and> (\<forall>e \<in> set (Objects sdb). name \<notin> fst ` set (Associations e)))"

inductive reachable :: "mqutil \<Rightarrow> DB \<Rightarrow> bool" for u :: mqutil where
  r_Init: "reachable u (DB_Init s)"
| r_Clone: "reachable u db \<Longrightarrow> reachable u (DB_CloneSchema db)"
| r_Insert: "reachable u db \<Longrightarrow> DB_Insert name obj associations db = (r, db') \<Longrightarrow> reachable u db'"
| r_Delete: "reachable u db \<Longrightarrow>
     DB_Delete u name criteria associations matches desiredCount db = (n, db') \<Longrightarrow> reachable u db'"
| r_Update: "reachable u db \<Longrightarrow>
     DB_Update u name criteria associations matches newObj desiredCount patch db = (n, db') \<Longrightarrow>
     reachable u db'"

section \<open>Value generation and the test plan (package mqplan, dsl.go)\<close>

subsection \<open>Parameter definitions\<close>

text \<open>
  The parameter types are those of \<open>go-openapi/spec\<close>, as far as \<open>dsl.go\<close> reads them.
  \<open>CommonValidations\<close> holds the bounds; a \<open>*float64\<close> or \<open>*int64\<close> is an option and a
  \<open>float64\<close> is modelled by a real number. \<open>SimpleSchema\<close> and \<open>Items\<close> refer to each
  other: the items of an array have a \<open>SimpleSchema\<close> and \<open>CommonValidations\<close> of their
  own.
\<close>

record CommonValidations =
  Maximum :: "real option"
  ExclusiveMaximum :: bool
  Minimum :: "real option"
  ExclusiveMinimum :: bool
  Pattern_of :: string
  MaxItems :: "int option"
  MinItems :: "int option"
  Enum :: "jvalue list"

datatype SimpleSchema = SimpleSchema (Type_of: string) (Format: string) (Items_of: "Items option")
  and Items = spec_Items (Items_SimpleSchema: SimpleSchema) (Items_CommonValidations: CommonValidations)

text \<open>
  A \<open>spec.Parameter\<close>: its name, the body schema \<open>Schema\<close> (a pointer; \<open>dsl.go\<close> only tests
  it against nil and reads nothing of the schema, which is kept as its text), and the embedded
  \<open>SimpleSchema\<close> and \<open>CommonValidations\<close>. \<open>paramSpec.Type\<close> and \<open>paramSpec.Enum\<close> are
  fields of the embedded structs.
\<close>

datatype spec_Schema = spec_Schema string

record Parameter =
  Param_Name :: string
  Param_Schema :: "spec_Schema option"
  Param_SimpleSchema :: SimpleSchema
  Param_CommonValidations :: CommonValidations

record Operation =
  op_Parameters :: "Parameter list"

record PathItem =
  Get :: "Operation option"
  Put :: "Operation option"
  Post :: "Operation option"
  Delete :: "Operation option"
  Options :: "Operation option"
  Head :: "Operation option"
  Patch :: "Operation option"

text \<open>
  In \<open>dsl.go\<close> a \<open>*mqswag.Swagger\<close> is read only through \<open>swagger.Paths.Paths[t.Path]\<close>; a
  path that is not in the map reads as the zero \<open>PathItem\<close>, whose operations are all nil.
\<close>

record SwaggerDoc =
  BasePath :: string
  Paths :: "string \<Rightarrow> PathItem option"

definition zero_PathItem :: PathItem where
  "zero_PathItem = \<lparr>Get = None, Put = None, Post = None, Delete = None, Options = None,
                      Head = None, Patch = None\<rparr>"

subsection \<open>Randomness and library calls\<close>

text \<open>
  The global source of \<open>math/rand\<close> is an explicit state: the sequence of the uniform
  draws from \<open>[0, 1)\<close> still to come. \<open>rand.Float64\<close> takes the next draw \<open>u\<close>;
  \<open>rand.Intn(n)\<close> panics for \<open>n \<le> 0\<close> and otherwise yields \<open>\<lfloor>u * n\<rfloor>\<close>.
\<close>

type_synonym rng = "nat \<Rightarrow> real"

definition rand_Float64 :: "rng \<Rightarrow> real \<times> rng" where
  "rand_Float64 r = (r 0, \<lambda>n. r (Suc n))"

definition rand_Intn :: "int \<Rightarrow> rng \<Rightarrow> int outcome \<times> rng" where
  "rand_Intn n r =
     (if n \<le> 0 then (Panic ''invalid argument to Intn'', r)
      else (Ok \<lfloor>r 0 * real_of_int n\<rfloor>, \<lambda>n. r (Suc n)))"

text \<open>
  Library functions that \<open>dsl.go\<close> calls and that are not part of it: \<open>fmt.Sprintf("%v", x)\<close>,
  the regular-expression generator \<open>reggen\<close> (\<open>NewGenerator\<close> fails with a message or gives a
  generator, whose \<open>Generate(limit)\<close> produces a string), \<open>RandomTime(time.Now(), 30 days)\<close>
  followed by \<open>Format(layout)\<close> as a function of the uniform draw and the layout, the
  base64 and hex encoders, \<open>strings.ToUpper\<close>, \<open>yaml.Unmarshal\<close> into a
  \<open>map[string]TestCase\<close>, \<open>ioutil.ReadFile\<close>, and \<open>generateObject\<close>, which \<open>generateParameter\<close>
  calls but \<open>dsl.go\<close> does not define.
\<close>

record Test =
  Test_Name :: string
  Path :: string
  Method :: string
  Test_Ref :: string
  Parameters :: "(string \<Rightarrow> jvalue option) option"

text \<open>
  A \<open>TestCase\<close> is a \<open>[]*Test\<close>: an element may be the nil pointer. \<open>Test.Parameters\<close> may be
  the nil map (\<open>None\<close>): reading it finds nothing, assigning to it panics.
\<close>

type_synonym TestCase = "Test option list"

record libs =
  fmt_Sprintf_v :: "jvalue \<Rightarrow> string"
  reggen_NewGenerator :: "string \<Rightarrow> string + (int \<Rightarrow> string)"
  RandomTime_Format :: "real \<Rightarrow> string \<Rightarrow> string"
  base64_EncodeToString :: "string \<Rightarrow> string"
  hex_EncodeToString :: "string \<Rightarrow> string"
  strings_ToUpper :: "string \<Rightarrow> string"
  yaml_Unmarshal :: "string \<Rightarrow> error + TestCase gomap"
  ioutil_ReadFile :: "string \<Rightarrow> error + string"
  generateObject :: "Parameter \<Rightarrow> rng \<Rightarrow> jvalue outcome \<times> rng"

definition time_RFC3339 :: string where
  "time_RFC3339 = ''2006-01-02T15:04:05Z07:00''"

subsection \<open>The generators\<close>

text \<open>
  \<open>generateString\<close>. The two date formats return a formatted random time; otherwise a
  string is generated from the declared pattern, or from the prefix followed by digits,
  and encoded as the format asks.
\<close>

definition generateString ::
  "libs \<Rightarrow> SimpleSchema \<Rightarrow> CommonValidations \<Rightarrow> string \<Rightarrow> rng \<Rightarrow> string outcome \<times> rng" where
  "generateString L s v prefix r =
     (if Format s = ''date-time'' then
        (case rand_Float64 r of (u, r') \<Rightarrow> (Ok (RandomTime_Format L u time_RFC3339), r'))
      else if Format s = ''date'' then
        (case rand_Float64 r of (u, r') \<Rightarrow> (Ok (RandomTime_Format L u ''2006-01-02''), r'))
      else
        (let (pattern, limit) =
               (if length (Pattern_of v) \<noteq> 0
                then (Pattern_of v, int (length (Pattern_of v)) * 2)
                else (prefix @ [CHR 0x5C] @ ''d+'', int (length prefix) + 5))
         in case reggen_NewGenerator L pattern of
              Inl err \<Rightarrow> (Err (NewError ErrInvalid err), r)
            | Inr g \<Rightarrow>
                (let str = g limit in
                 if length (Format s) = 0 \<or> Format s = ''password'' then (Ok str, r)
                 else if Format s = ''byte'' then (Ok (base64_EncodeToString L str), r)
                 else if Format s = ''binary'' then (Ok (hex_EncodeToString L str), r)
                 else (Err (NewError ErrInvalid (''Invalid format string: '' @ Format s)), r))))"

definition generateBool :: "CommonValidations \<Rightarrow> rng \<Rightarrow> jvalue outcome \<times> rng" where
  "generateBool v r =
     (case rand_Intn 2 r of
        (Ok n, r') \<Rightarrow> (Ok (VBool (n = 0)), r')
      | (Err e, r') \<Rightarrow> (Err e, r')
      | (Panic m, r') \<Rightarrow> (Panic m, r'))"

text \<open>
  \<open>generateFloat\<close>, statement by statement. \<open>realmin\<close> and \<open>realmax\<close> start as 0 (the zero
  value of \<open>float64\<close>). The last branch of the inner chain is kept as the code has it; its
  message would print the two bounds.
\<close>

definition generateFloat :: "CommonValidations \<Rightarrow> rng \<Rightarrow> real outcome \<times> rng" where
  "generateFloat v r =
     (let realmin = (case Minimum v of
                       None \<Rightarrow> 0
                     | Some m \<Rightarrow> if ExclusiveMinimum v then m + 0.01 else m);
          realmax = (case Maximum v of
                       None \<Rightarrow> 0
                     | Some m \<Rightarrow> if ExclusiveMaximum v then m - 0.01 else m)
      in if realmin \<ge> realmax then
           (if Minimum v = None \<and> Maximum v = None then
              (case rand_Float64 r of (u, r') \<Rightarrow> (Ok (u * (1.0 - (- 1.0)) + (- 1.0)), r'))
            else if Minimum v \<noteq> None then
              (let realmax = realmin + \<bar>realmin\<bar> in
               case rand_Float64 r of (u, r') \<Rightarrow> (Ok (u * (realmax - realmin) + realmin), r'))
            else if Maximum v \<noteq> None then
              (let realmin = realmax - \<bar>realmax\<bar> in
               case rand_Float64 r of (u, r') \<Rightarrow> (Ok (u * (realmax - realmin) + realmin), r'))
            else
              (Err (NewError ErrInvalid ''specified min value is bigger than max''), r))
         else
           (case rand_Float64 r of (u, r') \<Rightarrow> (Ok (u * (realmax - realmin) + realmin), r')))"

text \<open>The conversion \<open>int64(f)\<close> drops the fraction (rounds towards zero).\<close>

definition int64_of :: "real \<Rightarrow> int" where
  "int64_of f = (if f \<ge> 0 then \<lfloor>f\<rfloor> else \<lceil>f\<rceil>)"

definition generateInt :: "CommonValidations \<Rightarrow> rng \<Rightarrow> int outcome \<times> rng" where
  "generateInt v r =
     (case generateFloat v r of
        (Err e, r') \<Rightarrow> (Err e, r')
      | (Panic m, r') \<Rightarrow> (Panic m, r')
      | (Ok f, r') \<Rightarrow>
          (let i = int64_of f in
           case Minimum v of
             Some m \<Rightarrow> if i \<le> int64_of m then (Ok (i + 1), r') else (Ok i, r')
           | None \<Rightarrow> (Ok i, r')))"

text \<open>
  \<open>generateByType\<close> and \<open>generateArray\<close> call each other; the loop of \<open>generateArray\<close>
  generates \<open>numItems\<close> elements from the item schema \<open>s.Items\<close>, which is dereferenced
  only inside the loop.
\<close>

lemma size_Items_SimpleSchema:
  "Items_of s = Some items \<Longrightarrow> size (Items_SimpleSchema items) < size s"
  by (cases s; cases items) simp

function (sequential) generateByType ::
      "libs \<Rightarrow> SimpleSchema \<Rightarrow> CommonValidations \<Rightarrow> string \<Rightarrow> rng \<Rightarrow> jvalue outcome \<times> rng"
  and generateArray ::
      "libs \<Rightarrow> SimpleSchema \<Rightarrow> CommonValidations \<Rightarrow> string \<Rightarrow> rng \<Rightarrow> jvalue outcome \<times> rng"
  and generateArray_loop ::
      "libs \<Rightarrow> SimpleSchema \<Rightarrow> string \<Rightarrow> nat \<Rightarrow> jvalue list \<Rightarrow> rng \<Rightarrow> jvalue outcome \<times> rng"
  where
  "generateByType L s v prefix r =
     (if Type_of s = ''array'' then generateArray L s v prefix r
      else if Type_of s = ''boolean'' then generateBool v r
      else if Type_of s = ''integer'' then
        (case generateInt v r of
           (Ok i, r') \<Rightarrow> (Ok (VInt i), r')
         | (Err e, r') \<Rightarrow> (Err e, r')
         | (Panic m, r') \<Rightarrow> (Panic m, r'))
      else if Type_of s = ''number'' then
        (case generateFloat v r of
           (Ok f, r') \<Rightarrow> (Ok (VFloat f), r')
         | (Err e, r') \<Rightarrow> (Err e, r')
         | (Panic m, r') \<Rightarrow> (Panic m, r'))
      else if Type_of s = ''string'' then
        (case generateString L s v prefix r of
           (Ok str, r') \<Rightarrow> (Ok (VString str), r')
         | (Err e, r') \<Rightarrow> (Err e, r')
         | (Panic m, r') \<Rightarrow> (Panic m, r'))
      else (Panic ''not implemented'', r))"
| "generateArray L s v prefix r =
     (let maxItems = (case MaxItems v of None \<Rightarrow> 0 | Some m \<Rightarrow> if m < 0 then 0 else m);
          minItems = (case MinItems v of None \<Rightarrow> 0 | Some m \<Rightarrow> if m < 0 then 0 else m);
          maxDiff = (if maxItems - minItems < 0 then 1 else maxItems - minItems)
      in case rand_Intn maxDiff r of
           (Ok n, r') \<Rightarrow> generateArray_loop L s prefix (nat (n + minItems)) [] r'
         | (Err e, r') \<Rightarrow> (Err e, r')
         | (Panic m, r') \<Rightarrow> (Panic m, r'))"
| "generateArray_loop L s prefix 0 ar r = (Ok (VArray ar), r)"
| "generateArray_loop L s prefix (Suc k) ar r =
     (case Items_of s of
        None \<Rightarrow> (Panic ''invalid memory address or nil pointer dereference'', r)
      | Some items \<Rightarrow>
          (case generateByType L (Items_SimpleSchema items) (Items_CommonValidations items)
                  (prefix @ ''-'') r of
             (Ok entry, r') \<Rightarrow> generateArray_loop L s prefix k (ar @ [entry]) r'
           | (Err e, r') \<Rightarrow> (Err e, r')
           | (Panic m, r') \<Rightarrow> (Panic m, r')))"
  by pat_completeness auto

termination
  by (relation "inv_image (less_than <*lex*> less_than <*lex*> less_than)
        (\<lambda>x. case x of
           Inl (L, s, v, p, r) \<Rightarrow> (size s, 2::nat, 0::nat)
         | Inr (Inl (L, s, v, p, r)) \<Rightarrow> (size s, 1, 0)
         | Inr (Inr (L, s, p, k, ar, r)) \<Rightarrow> (size s, 0, k))")
     (auto simp: size_Items_SimpleSchema)

declare generateByType.simps [simp del] generateArray.simps [simp del]

definition generateBySchema :: "spec_Schema \<Rightarrow> DB \<Rightarrow> string outcome" where
  "generateBySchema schema db = Panic ''not implemented''"

text \<open>
  \<open>generateByEnum\<close> formats the chosen enum value with \<open>%v\<close>: whatever the type of the
  value, the result is a string.
\<close>

definition generateByEnum :: "libs \<Rightarrow> Parameter \<Rightarrow> rng \<Rightarrow> string outcome \<times> rng" where
  "generateByEnum L paramSpec r =
     (let enum = Enum (Param_CommonValidations paramSpec) in
      case rand_Intn (int (length enum)) r of
        (Ok n, r') \<Rightarrow>
          (if 0 \<le> n \<and> nat n < length enum then (Ok (fmt_Sprintf_v L (enum ! nat n)), r')
           else (Panic ''index out of range'', r'))
      | (Err e, r') \<Rightarrow> (Err e, r')
      | (Panic m, r') \<Rightarrow> (Panic m, r'))"

definition generateParameter :: "libs \<Rightarrow> Parameter \<Rightarrow> DB \<Rightarrow> rng \<Rightarrow> jvalue outcome \<times> rng" where
  "generateParameter L paramSpec db r =
     (case Param_Schema paramSpec of
        Some schema \<Rightarrow>
          (case generateBySchema schema db of
             Ok str \<Rightarrow> (Ok (VString str), r)
           | Err e \<Rightarrow> (Err e, r)
           | Panic m \<Rightarrow> (Panic m, r))
      | None \<Rightarrow>
          if length (Enum (Param_CommonValidations paramSpec)) \<noteq> 0 then
            (case generateByEnum L paramSpec r of
               (Ok str, r') \<Rightarrow> (Ok (VString str), r')
             | (Err e, r') \<Rightarrow> (Err e, r')
             | (Panic m, r') \<Rightarrow> (Panic m, r'))
          else if length (Type_of (Param_SimpleSchema paramSpec)) = 0 then
            (Err (NewError ErrInvalid ''Parameter doesn't have type''), r)
          else if Type_of (Param_SimpleSchema paramSpec) = ''object'' then
            generateObject L paramSpec r
          else
            generateByType L (Param_SimpleSchema paramSpec) (Param_CommonValidations paramSpec)
              (Param_Name paramSpec @ ''-'') r)"

subsection \<open>Resolving the parameters of a test\<close>

definition getOperationByMethod :: "PathItem \<Rightarrow> string \<Rightarrow> Operation option" where
  "getOperationByMethod item method =
     (if method = ''GET'' then Get item
      else if method = ''POST'' then Post item
      else if method = ''PUT'' then Put item
      else if method = ''DELETE'' then Delete item
      else if method = ''PATCH'' then Patch item
      else if method = ''HEAD'' then Head item
      else if method = ''OPTIONS'' then Options item
      else None)"

text \<open>
  The loop of \<open>ResolveParameters\<close> over \<open>op.Parameters\<close>. A parameter the test already has is
  skipped; for the first one it does not have, the loop generates a value, stores it and
  returns, or returns the generator's error. The test is returned as the call leaves it.
\<close>

fun ResolveParameters_loop ::
  "libs \<Rightarrow> DB \<Rightarrow> Parameter list \<Rightarrow> Test \<Rightarrow> rng \<Rightarrow> (unit outcome \<times> Test) \<times> rng" where
  "ResolveParameters_loop L db [] t r = ((Ok (), t), r)"
| "ResolveParameters_loop L db (params # rest) t r =
     (if (case Parameters t of None \<Rightarrow> False | Some m \<Rightarrow> m (Param_Name params) \<noteq> None)
      then ResolveParameters_loop L db rest t r
      else
        (case generateParameter L params db r of
           (Err e, r') \<Rightarrow> ((Err e, t), r')
         | (Panic msg, r') \<Rightarrow> ((Panic msg, t), r')
         | (Ok p, r') \<Rightarrow>
             (case Parameters t of
                None \<Rightarrow> ((Panic ''assignment to entry in nil map'', t), r')
              | Some m \<Rightarrow> ((Ok (), t\<lparr>Parameters := Some (m(Param_Name params \<mapsto> p))\<rparr>), r'))))"

definition ResolveParameters ::
  "libs \<Rightarrow> Test \<Rightarrow> SwaggerDoc \<Rightarrow> DB \<Rightarrow> rng \<Rightarrow> (unit outcome \<times> Test) \<times> rng" where
  "ResolveParameters L t swagger db r =
     (let pathItem = (case Paths swagger (Path t) of None \<Rightarrow> zero_PathItem | Some item \<Rightarrow> item)
      in case getOperationByMethod pathItem (Method t) of
           None \<Rightarrow>
             ((Err (NewError ErrNotFound (''Path '' @ Path t @ '' not found in swagger file'')), t), r)
         | Some op \<Rightarrow> ResolveParameters_loop L db (op_Parameters op) t r)"

subsection \<open>The test plan\<close>

text \<open>
  \<open>CaseMap\<close> is a \<open>map[string]TestCase\<close>; it is nil (\<open>None\<close>) in the zero \<open>TestPlan\<close>, and
  assigning to the nil map panics.
\<close>

record TestPlan =
  CaseMap :: "(string \<Rightarrow> TestCase option) option"
  CaseList :: "TestCase list"

definition Add :: "string \<Rightarrow> TestCase \<Rightarrow> TestPlan \<Rightarrow> unit outcome \<times> TestPlan" where
  "Add name testCase plan =
     (if (case CaseMap plan of None \<Rightarrow> False | Some m \<Rightarrow> m name \<noteq> None) then
        (Err (errors_New (''Duplicate name '' @ name @ '' found in test plan'')), plan)
      else
        (case CaseMap plan of
           None \<Rightarrow> (Panic ''assignment to entry in nil map'', plan)
         | Some m \<Rightarrow>
             (Ok (), plan\<lparr>CaseMap := Some (m(name \<mapsto> testCase)),
                          CaseList := CaseList plan @ [testCase]\<rparr>)))"

text \<open>
  \<open>AddFromString\<close>: the inner loop upper-cases the method of every test of a case (through
  the pointer, which must not be nil); the outer loop adds the cases in the order the
  decoded map is ranged over and stops at the first error.
\<close>

fun upper_methods :: "libs \<Rightarrow> TestCase \<Rightarrow> TestCase outcome" where
  "upper_methods L [] = Ok []"
| "upper_methods L (None # rest) = Panic ''invalid memory address or nil pointer dereference''"
| "upper_methods L (Some t # rest) =
     (let t' = (if length (Method t) \<noteq> 0 then t\<lparr>Method := strings_ToUpper L (Method t)\<rparr> else t)
      in case upper_methods L rest of
           Ok rest' \<Rightarrow> Ok (Some t' # rest')
         | Err e \<Rightarrow> Err e
         | Panic m \<Rightarrow> Panic m)"

fun AddFromString_loop :: "libs \<Rightarrow> TestCase gomap \<Rightarrow> TestPlan \<Rightarrow> unit outcome \<times> TestPlan" where
  "AddFromString_loop L [] plan = (Ok (), plan)"
| "AddFromString_loop L ((testName, testCase) # rest) plan =
     (case upper_methods L testCase of
        Panic m \<Rightarrow> (Panic m, plan)
      | Err e \<Rightarrow> (Err e, plan)
      | Ok testCase' \<Rightarrow>
          (case Add testName testCase' plan of
             (Ok u, plan') \<Rightarrow> AddFromString_loop L rest plan'
           | (Err e, plan') \<Rightarrow> (Err e, plan')
           | (Panic m, plan') \<Rightarrow> (Panic m, plan')))"

definition AddFromString :: "libs \<Rightarrow> string \<Rightarrow> TestPlan \<Rightarrow> unit outcome \<times> TestPlan" where
  "AddFromString L data plan =
     (case yaml_Unmarshal L data of
        Inl err \<Rightarrow> (Err err, plan)
      | Inr caseMap \<Rightarrow> AddFromString_loop L caseMap plan)"

text \<open>
  \<open>strings.Split(s, sep)\<close> for a non-empty separator: the pieces between the successive
  occurrences of \<open>sep\<close>, found from the left.
\<close>

fun strings_Split_from :: "string \<Rightarrow> string \<Rightarrow> string \<Rightarrow> string list" where
  "strings_Split_from sep cur [] = [cur]"
| "strings_Split_from sep cur (c # cs) =
     (if sep \<noteq> [] \<and> take (length sep) (c # cs) = sep
      then cur # strings_Split_from sep [] (drop (length sep - 1) cs)
      else strings_Split_from sep (cur @ [c]) cs)"

definition strings_Split :: "string \<Rightarrow> string \<Rightarrow> string list" where
  "strings_Split s sep = strings_Split_from sep [] s"

text \<open>
  \<open>InitFromFile\<close> resets the plan, reads the file, splits it at \<open>---\<close> and calls
  \<open>AddFromString\<close> on every chunk. The error that \<open>AddFromString\<close> returns is dropped (the
  call is a statement); a panic is not.
\<close>

fun InitFromFile_loop :: "libs \<Rightarrow> string list \<Rightarrow> TestPlan \<Rightarrow> unit outcome \<times> TestPlan" where
  "InitFromFile_loop L [] plan = (Ok (), plan)"
| "InitFromFile_loop L (chunk # chunks) plan =
     (case AddFromString L chunk plan of
        (Panic m, plan') \<Rightarrow> (Panic m, plan')
      | (Err e, plan') \<Rightarrow> InitFromFile_loop L chunks plan'
      | (Ok u, plan') \<Rightarrow> InitFromFile_loop L chunks plan')"

definition InitFromFile :: "libs \<Rightarrow> string \<Rightarrow> TestPlan \<Rightarrow> unit outcome \<times> TestPlan" where
  "InitFromFile L path plan =
     (let plan0 = plan\<lparr>CaseMap := Some (\<lambda>name. None), CaseList := []\<rparr> in
      case ioutil_ReadFile L path of
        Inl err \<Rightarrow> (Err err, plan0)
      | Inr data \<Rightarrow> InitFromFile_loop L (strings_Split data ''---'') plan0)"

section \<open>A parameter definition as a schema node\<close>



section \<open>Concrete inputs\<close>

text \<open>
  A document with two named schemas \<open>A\<close> and \<open>B\<close>, an instance of the \<open>mqutil\<close>
  helpers (equality as \<open>InterfaceEquals\<close>, replacement as \<open>MapCombine\<close>), an object and
  an association map that names the object's own class \<open>A\<close>.
\<close>

definition example_swagger :: Swagger where
  "example_swagger =
     \<lparr>Components_Schemas = [(''A'', \<lparr>Ref = [], Value = Some 0\<rparr>), (''B'', \<lparr>Ref = [], Value = Some 1\<rparr>)],
      GetReferredSchema = (\<lambda>s. Ok ([], \<lparr>Ref = [], Value = None\<rparr>)),
      schema_store = (\<lambda>a. None)\<rparr>"

definition example_mqutil :: mqutil where
  "example_mqutil =
     \<lparr>InterfaceEquals = (\<lambda>a b. b = Some a),
      MapCombine = (\<lambda>dst src. src)\<rparr>"

definition example_obj :: jvalue where
  "example_obj = VMap [(''id'', VInt 1)]"

definition example_assoc :: "jvalue gomap" where
  "example_assoc = [(''A'', VMap [(''id'', VInt 7)]), (''B'', VMap [(''id'', VInt 2)])]"


text \<open>The store after inserting the object under \<open>A\<close> into the freshly initialised store.\<close>

definition example_db1 :: DB where
  "example_db1 =
     (DB_Init example_swagger)\<lparr>schemas := (schemas (DB_Init example_swagger))(''A'' \<mapsto>
        \<lparr>Name = ''A'', Schema = \<lparr>Ref = [], Value = Some 0\<rparr>, NoHistory = False,
         Objects = [\<lparr>Data = example_obj,
                     Associations = CopyWithoutClass example_assoc ''A''\<rparr>]\<rparr>)\<rparr>"
subsection \<open>Inputs for the generator and the test plan\<close>

text \<open>
  An instance of the library functions. \<open>%v\<close> prints a string as it is, an integer in
  decimal and a boolean as \<open>true\<close>/\<open>false\<close>; \<open>strings.ToUpper\<close> is given on ASCII letters.
  The file \<open>testplan.yml\<close> holds two documents, each with one case named \<open>dup\<close>, and
  \<open>yaml.Unmarshal\<close> is given on these two documents.
\<close>

fun fmt_nat :: "nat \<Rightarrow> string" where
  "fmt_nat n = (if n < 10 then [''0123456789'' ! n]
                else fmt_nat (n div 10) @ [''0123456789'' ! (n mod 10)])"

declare fmt_nat.simps [simp del]

definition fmt_int :: "int \<Rightarrow> string" where
  "fmt_int i = (if i < 0 then ''-'' @ fmt_nat (nat (- i)) else fmt_nat (nat i))"

definition example_Sprint :: "jvalue \<Rightarrow> string" where
  "example_Sprint v =
     (case v of
        VString s \<Rightarrow> s
      | VJsonNumber s \<Rightarrow> s
      | VInt i \<Rightarrow> fmt_int i
      | VBool b \<Rightarrow> (if b then ''true'' else ''false'')
      | _ \<Rightarrow> [])"

definition ascii_upper :: "char \<Rightarrow> char" where
  "ascii_upper c =
     (case map_of (zip ''abcdefghijklmnopqrstuvwxyz'' ''ABCDEFGHIJKLMNOPQRSTUVWXYZ'') c of
        Some C \<Rightarrow> C
      | None \<Rightarrow> c)"

definition example_test1 :: Test where
  "example_test1 = \<lparr>Test_Name = ''first'', Path = ''/pet'', Method = ''get'', Test_Ref = [],
                     Parameters = None\<rparr>"

definition example_test2 :: Test where
  "example_test2 = \<lparr>Test_Name = ''second'', Path = ''/pet'', Method = ''get'', Test_Ref = [],
                     Parameters = None\<rparr>"

definition example_chunk1 :: string where
  "example_chunk1 = ''dup: [{name: first, path: /pet, method: get}] ''"

definition example_chunk2 :: string where
  "example_chunk2 = '' dup: [{name: second, path: /pet, method: get}]''"

definition example_libs :: libs where
  "example_libs =
     \<lparr>fmt_Sprintf_v = example_Sprint,
      reggen_NewGenerator = (\<lambda>pattern. Inl ''not used''),
      RandomTime_Format = (\<lambda>u layout. layout),
      base64_EncodeToString = (\<lambda>s. s),
      hex_EncodeToString = (\<lambda>s. s),
      strings_ToUpper = map ascii_upper,
      yaml_Unmarshal = (\<lambda>data.
        if data = example_chunk1 then Inr [(''dup'', [Some example_test1])]
        else if data = example_chunk2 then Inr [(''dup'', [Some example_test2])]
        else Inl (errors_New ''yaml: unmarshal errors'')),
      ioutil_ReadFile = (\<lambda>path.
        if path = ''testplan.yml'' then Inr (example_chunk1 @ ''---'' @ example_chunk2)
        else Inl (errors_New ''no such file or directory'')),
      generateObject = (\<lambda>p r. (Panic ''not implemented'', r))\<rparr>"

text \<open>The empty plan, and the plan that holds the first case named \<open>dup\<close>.\<close>

definition empty_plan :: TestPlan where
  "empty_plan = \<lparr>CaseMap = Some (\<lambda>name. None), CaseList = []\<rparr>"

definition example_plan1 :: TestPlan where
  "example_plan1 =
     \<lparr>CaseMap = Some ((\<lambda>name. None)(''dup'' \<mapsto> [Some (example_test1\<lparr>Method := ''GET''\<rparr>)])),
      CaseList = [[Some (example_test1\<lparr>Method := ''GET''\<rparr>)]]\<rparr>"

text \<open>
  Bounds and parameters: a minimum of 10 above a maximum of 5; a parameter with a body
  schema; a parameter without any type; the \<open>status\<close> parameter of the operation
  \<open>GET /pet/findByStatus\<close> with its three enum values, followed by an integer parameter
  \<open>limit\<close>; and a random source whose draws are all one half.
\<close>

definition no_validations :: CommonValidations where
  "no_validations =
     \<lparr>Maximum = None, ExclusiveMaximum = False, Minimum = None, ExclusiveMinimum = False,
      Pattern_of = [], MaxItems = None, MinItems = None, Enum = []\<rparr>"

definition conflicting_bounds :: CommonValidations where
  "conflicting_bounds = no_validations\<lparr>Minimum := Some 10, Maximum := Some 5\<rparr>"

definition body_param :: Parameter where
  "body_param =
     \<lparr>Param_Name = ''body'', Param_Schema = Some (spec_Schema ''{type: object}''),
      Param_SimpleSchema = SimpleSchema [] [] None, Param_CommonValidations = no_validations\<rparr>"

definition untyped_param :: Parameter where
  "untyped_param =
     \<lparr>Param_Name = ''tag'', Param_Schema = None,
      Param_SimpleSchema = SimpleSchema [] [] None, Param_CommonValidations = no_validations\<rparr>"

definition status_param :: Parameter where
  "status_param =
     \<lparr>Param_Name = ''status'', Param_Schema = None,
      Param_SimpleSchema = SimpleSchema ''string'' [] None,
      Param_CommonValidations =
        no_validations\<lparr>Enum := [VString ''available'', VString ''pending'', VString ''sold'']\<rparr>\<rparr>"

definition limit_param :: Parameter where
  "limit_param =
     \<lparr>Param_Name = ''limit'', Param_Schema = None,
      Param_SimpleSchema = SimpleSchema ''integer'' [] None,
      Param_CommonValidations = no_validations\<rparr>"

definition half :: rng where
  "half = (\<lambda>n. 1 / 2)"

definition example_doc :: SwaggerDoc where
  "example_doc =
     \<lparr>BasePath = ''/v2'',
      Paths = (\<lambda>p. None)
        (''/pet/findByStatus'' \<mapsto> zero_PathItem\<lparr>Get := Some \<lparr>op_Parameters = [status_param, limit_param]\<rparr>\<rparr>,
         ''/pet/findByTags'' \<mapsto> zero_PathItem\<lparr>Get := Some \<lparr>op_Parameters = [untyped_param]\<rparr>\<rparr>)\<rparr>"

definition findByStatus_test :: Test where
  "findByStatus_test =
     \<lparr>Test_Name = ''get pet by status'', Path = ''/pet/findByStatus'', Method = ''GET'',
      Test_Ref = [], Parameters = Some (\<lambda>k. None)\<rparr>"

definition findByTags_test :: Test where
  "findByTags_test =
     \<lparr>Test_Name = ''get pet by tags'', Path = ''/pet/findByTags'', Method = ''GET'',
      Test_Ref = [], Parameters = Some (\<lambda>k. None)\<rparr>"

subsection \<open>Inputs for the schema engine\<close>

text \<open>
  An instance of the parameters of \<open>db.go\<close>: the tag reader knows the one tagged
  description of the examples, whose tag carries the Weak flag; every pattern matches;
  runes are counted as bytes; the dumps that end an error message are empty.
\<close>

definition weak_description :: string where
  "weak_description = ''<meqa Pet.friend weak>''"

definition example_env :: env where
  "example_env =
     \<lparr>GetMeqaTag = (\<lambda>description.
        if description = weak_description
        then Some \<lparr>Class = ''Pet'', Property = ''friend'', Flags = 4\<rparr> else None),
      FlagWeak = 4,
      regexp_MatchString = (\<lambda>pattern s. True),
      fmt_Sprint = example_Sprint,
      utf8_RuneCountInString = length,
      json_MarshalIndent = (\<lambda>schema object. [])\<rparr>"

definition empty_Schema :: Schema where
  "empty_Schema =
     \<lparr>Type = [], Description = [], Properties = [], AllOf = [], Items = None, Required = [],
      Min = None, Max = None, MinLength = 0, MaxLength = None, Pattern = []\<rparr>"

definition no_reference :: SchemaRef where
  "no_reference = \<lparr>Ref = [], Value = None\<rparr>"

text \<open>
  A schema graph with a self-reference. \<open>Pet\<close> (address 0) is an \<open>allOf\<close> with one member
  (address 1), an object with the properties \<open>name\<close> (a string, address 2) and \<open>friend\<close>.
  \<open>friend\<close> refers back to \<open>Pet\<close>: its schema (address 3) carries the Weak tag and has the
  members of \<open>Pet\<close>, so a traversal that entered it would come back to the object and to
  \<open>friend\<close> again.
\<close>

definition pet_root :: SchemaRef where
  "pet_root = \<lparr>Ref = [], Value = Some 0\<rparr>"

definition pet_member :: SchemaRef where
  "pet_member = \<lparr>Ref = [], Value = Some 1\<rparr>"

definition pet_name :: SchemaRef where
  "pet_name = \<lparr>Ref = [], Value = Some 2\<rparr>"

definition pet_friend :: SchemaRef where
  "pet_friend = \<lparr>Ref = ''#/components/schemas/Pet'', Value = Some 3\<rparr>"

definition pet_store :: store where
  "pet_store =
     (\<lambda>a. None)
       (0 \<mapsto> empty_Schema\<lparr>AllOf := [pet_member]\<rparr>,
        1 \<mapsto> empty_Schema\<lparr>Type := ''object'',
                              Properties := [(''name'', pet_name), (''friend'', pet_friend)]\<rparr>,
        2 \<mapsto> empty_Schema\<lparr>Type := ''string''\<rparr>,
        3 \<mapsto> empty_Schema\<lparr>Description := weak_description, AllOf := [pet_member]\<rparr>)"

definition pet_swagger :: Swagger where
  "pet_swagger =
     \<lparr>Components_Schemas = [(''Pet'', pet_root)],
      GetReferredSchema = (\<lambda>schema.
        if schema = pet_friend then Ok (''Pet'', pet_root)
        else if Ref schema = [] then Ok ([], no_reference)
        else Err (NewError ErrNotFound (''Reference object not found: '' @ Ref schema))),
      schema_store = pet_store\<rparr>"

definition pet_rank :: "SchemaRef \<Rightarrow> nat" where
  "pet_rank schema = (if Value schema = Some 0 then 2 else if Value schema = Some 1 then 1 else 0)"

text \<open>
  Schemas for parsing objects: \<open>Dog\<close> (address 0) is an object with the string properties
  \<open>name\<close> and \<open>tag\<close> and the number property \<open>age\<close>; \<open>StrictDog\<close> (address 3) has the property
  \<open>name\<close> and requires \<open>id\<close>; \<open>Coat\<close> (address 5) has the string property \<open>color\<close>;
  \<open>ColoredDog\<close> (address 4) is the \<open>allOf\<close> of \<open>Dog\<close> and \<open>Coat\<close>. No schema is a reference.
\<close>

definition string_schema :: SchemaRef where
  "string_schema = \<lparr>Ref = [], Value = Some 1\<rparr>"

definition number_schema :: SchemaRef where
  "number_schema = \<lparr>Ref = [], Value = Some 2\<rparr>"

definition dog_schema :: SchemaRef where
  "dog_schema = \<lparr>Ref = [], Value = Some 0\<rparr>"

definition strict_schema :: SchemaRef where
  "strict_schema = \<lparr>Ref = [], Value = Some 3\<rparr>"

definition colored_schema :: SchemaRef where
  "colored_schema = \<lparr>Ref = [], Value = Some 4\<rparr>"

definition coat_schema :: SchemaRef where
  "coat_schema = \<lparr>Ref = [], Value = Some 5\<rparr>"

definition Dog :: Schema where
  "Dog = empty_Schema\<lparr>Type := ''object'',
           Properties := [(''name'', string_schema), (''age'', number_schema),
                          (''tag'', string_schema)]\<rparr>"

definition StrictDog :: Schema where
  "StrictDog = empty_Schema\<lparr>Type := ''object'', Properties := [(''name'', string_schema)],
                 Required := [''id'']\<rparr>"

definition Coat :: Schema where
  "Coat = empty_Schema\<lparr>Type := ''object'', Properties := [(''color'', string_schema)]\<rparr>"

definition ColoredDog :: Schema where
  "ColoredDog = empty_Schema\<lparr>AllOf := [dog_schema, coat_schema]\<rparr>"

definition dog_store :: store where
  "dog_store =
     (\<lambda>a. None)
       (0 \<mapsto> Dog,
        1 \<mapsto> empty_Schema\<lparr>Type := ''string''\<rparr>,
        2 \<mapsto> empty_Schema\<lparr>Type := ''number''\<rparr>,
        3 \<mapsto> StrictDog,
        4 \<mapsto> ColoredDog,
        5 \<mapsto> Coat)"

definition dog_swagger :: Swagger where
  "dog_swagger =
     \<lparr>Components_Schemas = [(''Dog'', dog_schema), (''StrictDog'', strict_schema),
                             (''ColoredDog'', colored_schema), (''Coat'', coat_schema)],
      GetReferredSchema = (\<lambda>schema.
        if Ref schema = [] then Ok ([], no_reference)
        else Err (NewError ErrNotFound (''Reference object not found: '' @ Ref schema))),
      schema_store = dog_store\<rparr>"

text \<open>
  Objects: four fields of which \<open>Dog\<close> knows three; three fields of which \<open>Dog\<close> knows two;
  one field \<open>name\<close>, without the \<open>id\<close> that \<open>StrictDog\<close> requires; and three fields of which
  \<open>Dog\<close> knows \<open>name\<close>, \<open>Coat\<close> knows \<open>color\<close>, and neither knows \<open>owner\<close>.
\<close>

definition dog4 :: "jvalue gomap" where
  "dog4 = [(''name'', VString ''rex''), (''age'', VFloat 3), (''tag'', VString ''a''),
           (''color'', VString ''red'')]"

definition dog3 :: "jvalue gomap" where
  "dog3 = [(''name'', VString ''rex''), (''age'', VFloat 3), (''color'', VString ''red'')]"

definition dog1 :: "jvalue gomap" where
  "dog1 = [(''name'', VString ''rex'')]"

definition owned3 :: "jvalue gomap" where
  "owned3 = [(''name'', VString ''rex''), (''color'', VString ''red''), (''owner'', VString ''ann'')]"

subsection \<open>Inputs for generation followed by matching\<close>









section \<open>Properties of the object store\<close>

lemma CopyWithoutClass_key: "className \<notin> fst ` set (CopyWithoutClass src className)"
  by (auto simp: CopyWithoutClass_def)

lemma CopyWithoutClass_other:
  "k \<noteq> className \<Longrightarrow> map_of (CopyWithoutClass src className) k = map_of src k"
  unfolding CopyWithoutClass_def by (induction src) auto

lemma Delete_loop_subset:
  "count \<le> i \<Longrightarrow> set (snd (Delete_loop P d i count objs)) \<subseteq> set objs"
proof (induction P d i count objs rule: Delete_loop.induct)
  case (1 P d i count objs)
  show ?case
  proof (cases "i < length objs")
    case False
    then show ?thesis by (simp add: Delete_loop.simps)
  next
    case inb: True
    show ?thesis
    proof (cases "P (objs ! i)")
      case False
      with inb 1 show ?thesis by (subst Delete_loop.simps) simp
    next
      case m: True
      have mem: "objs ! count \<in> set objs" using inb "1.prems" by simp
      have sub: "set (objs[i := objs ! count]) \<subseteq> set objs"
        using mem set_update_subset_insert[of objs i "objs ! count"] by auto
      show ?thesis
      proof (cases "d \<ge> 0 \<and> int (count + 1) \<ge> d")
        case True
        with inb m sub show ?thesis by (subst Delete_loop.simps) (simp add: Let_def)
      next
        case False
        have "set (snd (Delete_loop P d (i + 1) (count + 1) (objs[i := objs ! count])))
                \<subseteq> set (objs[i := objs ! count])"
          using "1.IH"(1)[OF inb m refl refl False] "1.prems" by simp
        with inb m sub False show ?thesis
          by (subst Delete_loop.simps) (auto simp add: Let_def)
      qed
    qed
  qed
qed

lemma Update_loop_Associations:
  "map Associations (snd (Update_loop u P newObj d patch count es)) = map Associations es"
  by (induction es arbitrary: count) (simp_all add: Let_def split_beta)

lemma DB_Init_schemas_aux:
  "(\<forall>name sdb. m name = Some sdb \<longrightarrow> Name sdb = name \<and> Objects sdb = []) \<Longrightarrow>
   foldl (\<lambda>m (schemaName, schema).
            m(schemaName \<mapsto> \<lparr>Name = schemaName, Schema = schema, NoHistory = False, Objects = []\<rparr>))
         m xs name = Some sdb \<Longrightarrow> Name sdb = name \<and> Objects sdb = []"
proof (induction xs arbitrary: m)
  case Nil
  then show ?case by simp
next
  case (Cons x xs)
  obtain k v where x: "x = (k, v)" by (cases x)
  show ?case
    by (rule Cons.IH[of "m(k \<mapsto> \<lparr>Name = k, Schema = v, NoHistory = False, Objects = []\<rparr>)"])
       (use Cons.prems x in \<open>auto split: if_splits\<close>)
qed

lemma assoc_isolated_Init: "assoc_isolated (DB_Init s)"
  unfolding assoc_isolated_def DB_Init_def
  using DB_Init_schemas_aux[of "\<lambda>_. None"] by fastforce

lemma assoc_isolated_Clone: "assoc_isolated db \<Longrightarrow> assoc_isolated (DB_CloneSchema db)"
  unfolding assoc_isolated_def DB_CloneSchema_def SchemaDB_CloneSchema_def by auto

lemma SchemaDB_Insert_Ok:
  "SchemaDB_Insert obj a sdb = Ok sdb' \<Longrightarrow>
   Name sdb' = Name sdb \<and> NoHistory sdb' = NoHistory sdb \<and>
   (if NoHistory sdb then Objects sdb' = Objects sdb
    else Objects sdb' = Objects sdb @ [\<lparr>Data = obj, Associations = a\<rparr>])"
  by (auto simp: SchemaDB_Insert_def split: if_splits jvalue.splits)

lemma assoc_isolated_replace:
  assumes inv: "assoc_isolated db" and old: "schemas db name = Some sdb"
    and n: "Name sdb' = Name sdb"
    and o: "\<And>e. e \<in> set (Objects sdb') \<Longrightarrow> name \<notin> fst ` set (Associations e)"
  shows "assoc_isolated (db\<lparr>schemas := (schemas db)(name \<mapsto> sdb')\<rparr>)"
  unfolding assoc_isolated_def
proof (intro allI impI)
  fix nm s
  assume h: "schemas (db\<lparr>schemas := (schemas db)(name \<mapsto> sdb')\<rparr>) nm = Some s"
  show "Name s = nm \<and> (\<forall>e\<in>set (Objects s). nm \<notin> fst ` set (Associations e))"
  proof (cases "nm = name")
    case False
    with h have "schemas db nm = Some s" by simp
    with inv show ?thesis unfolding assoc_isolated_def by blast
  next
    case True
    with h have s: "s = sdb'" by simp
    have "Name sdb = name" using inv old unfolding assoc_isolated_def by blast
    with n o s True show ?thesis by simp
  qed
qed

lemma assoc_isolated_entry:
  "assoc_isolated db \<Longrightarrow> schemas db name = Some sdb \<Longrightarrow> e \<in> set (Objects sdb) \<Longrightarrow>
   name \<notin> fst ` set (Associations e)"
  unfolding assoc_isolated_def by blast

lemma assoc_isolated_Insert:
  assumes "assoc_isolated db" and "DB_Insert name obj associations db = (r, db')"
  shows "assoc_isolated db'"
proof (cases "schemas db name")
  case None
  with assms show ?thesis by (simp add: DB_Insert_def)
next
  case (Some sdb)
  show ?thesis
  proof (cases "SchemaDB_Insert obj (CopyWithoutClass associations name) sdb")
    case (Ok sdb')
    have n: "Name sdb' = Name sdb" using SchemaDB_Insert_Ok[OF Ok] by simp
    have o: "set (Objects sdb') \<subseteq> set (Objects sdb) \<union>
            {\<lparr>Data = obj, Associations = CopyWithoutClass associations name\<rparr>}"
      using SchemaDB_Insert_Ok[OF Ok] by (cases "NoHistory sdb") auto
    have db': "db' = db\<lparr>schemas := (schemas db)(name \<mapsto> sdb')\<rparr>"
      using assms(2) Some Ok by (simp add: DB_Insert_def)
    have "name \<notin> fst ` set (Associations e)" if e: "e \<in> set (Objects sdb')" for e
    proof (cases "e \<in> set (Objects sdb)")
      case True
      then show ?thesis by (rule assoc_isolated_entry[OF assms(1) Some])
    next
      case False
      with e o have "e = \<lparr>Data = obj, Associations = CopyWithoutClass associations name\<rparr>"
        by blast
      then show ?thesis using CopyWithoutClass_key[of name associations] by simp
    qed
    then show ?thesis unfolding db' by (rule assoc_isolated_replace[OF assms(1) Some n])
  next
    case (Err e)
    with assms Some show ?thesis by (simp add: DB_Insert_def)
  next
    case (Panic m)
    with assms Some show ?thesis by (simp add: DB_Insert_def)
  qed
qed

lemma assoc_isolated_Delete:
  assumes "assoc_isolated db"
    and "DB_Delete u name criteria associations matches desiredCount db = (n, db')"
  shows "assoc_isolated db'"
proof (cases "schemas db name")
  case None
  with assms show ?thesis by (simp add: DB_Delete_def)
next
  case (Some sdb)
  let ?P = "\<lambda>entry. DBEntry_Matches u entry criteria (CopyWithoutClass associations name) matches"
  let ?l = "Delete_loop ?P desiredCount 0 0 (Objects sdb)"
  let ?sdb' = "sdb\<lparr>Objects := drop (fst ?l) (snd ?l)\<rparr>"
  have d: "SchemaDB_Delete u criteria (CopyWithoutClass associations name) matches desiredCount sdb
       = (fst ?l, ?sdb')"
    by (simp add: SchemaDB_Delete_def split_beta)
  have n: "Name ?sdb' = Name sdb" by simp
  have "set (drop (fst ?l) (snd ?l)) \<subseteq> set (snd ?l)" by (rule set_drop_subset)
  also have "\<dots> \<subseteq> set (Objects sdb)" by (rule Delete_loop_subset) simp
  finally have o: "set (Objects ?sdb') \<subseteq> set (Objects sdb)" by simp
  have db': "db' = db\<lparr>schemas := (schemas db)(name \<mapsto> ?sdb')\<rparr>"
    using assms(2) Some d by (auto simp add: DB_Delete_def)
  have "name \<notin> fst ` set (Associations e)" if e: "e \<in> set (Objects ?sdb')" for e
  proof -
    from e o have "e \<in> set (Objects sdb)" by blast
    then show ?thesis by (rule assoc_isolated_entry[OF assms(1) Some])
  qed
  then show ?thesis unfolding db' by (rule assoc_isolated_replace[OF assms(1) Some n])
qed

lemma assoc_isolated_Update:
  assumes "assoc_isolated db"
    and "DB_Update u name criteria associations matches newObj desiredCount patch db = (n, db')"
  shows "assoc_isolated db'"
proof (cases "schemas db name")
  case None
  with assms show ?thesis by (simp add: DB_Update_def)
next
  case (Some sdb)
  let ?P = "\<lambda>entry. DBEntry_Matches u entry criteria (CopyWithoutClass associations name) matches"
  let ?l = "Update_loop u ?P newObj desiredCount patch 0 (Objects sdb)"
  let ?sdb' = "sdb\<lparr>Objects := snd ?l\<rparr>"
  have d: "SchemaDB_Update u criteria (CopyWithoutClass associations name) matches newObj
       desiredCount patch sdb = (fst ?l, ?sdb')"
    by (simp add: SchemaDB_Update_def split_beta)
  have n: "Name ?sdb' = Name sdb" by simp
  have m: "map Associations (Objects ?sdb') = map Associations (Objects sdb)"
    by (simp add: Update_loop_Associations)
  have db': "db' = db\<lparr>schemas := (schemas db)(name \<mapsto> ?sdb')\<rparr>"
    using assms(2) Some d by (auto simp add: DB_Update_def)
  have "name \<notin> fst ` set (Associations e)" if e: "e \<in> set (Objects ?sdb')" for e
  proof -
    from e have "Associations e \<in> set (map Associations (Objects ?sdb'))" by simp
    then have "Associations e \<in> set (map Associations (Objects sdb))" by (simp only: m)
    then obtain e' where e': "e' \<in> set (Objects sdb)" and eq: "Associations e = Associations e'"
      by auto
    from assoc_isolated_entry[OF assms(1) Some e'] eq show ?thesis by simp
  qed
  then show ?thesis unfolding db' by (rule assoc_isolated_replace[OF assms(1) Some n])
qed

lemma reachable_isolated: "reachable u db \<Longrightarrow> assoc_isolated db"
proof (induction rule: reachable.induct)
  case (r_Init s)
  show ?case by (rule assoc_isolated_Init)
next
  case (r_Clone db)
  then show ?case by (simp add: assoc_isolated_Clone)
next
  case (r_Insert db name obj associations r db')
  then show ?case using assoc_isolated_Insert by blast
next
  case (r_Delete db name criteria associations matches desiredCount n db')
  then show ?case using assoc_isolated_Delete by blast
next
  case (r_Update db name criteria associations matches newObj desiredCount patch n db')
  then show ?case using assoc_isolated_Update by blast
qed


text \<open>
  Claim C3 (association isolation). When \<open>DB.Insert\<close> stores an object under class
  \<open>name\<close>, the stored entry holds the object, its association map has no key \<open>name\<close>
  and agrees with the caller's map on every other class. Every store that \<open>Init\<close>,
  \<open>CloneSchema\<close>, \<open>Insert\<close>, \<open>Delete\<close> and \<open>Update\<close> can reach satisfies the invariant: no
  entry of a collection carries an association keyed by the collection's own name.
\<close>

theorem association_isolation:
  "(schemas db name = Some sdb \<longrightarrow> \<not> NoHistory sdb \<longrightarrow>
    DB_Insert name obj associations db = (Ok (), db') \<longrightarrow>
      (\<exists>sdb' e. schemas db' name = Some sdb' \<and> Objects sdb' = Objects sdb @ [e] \<and>
         Data e = obj \<and> name \<notin> fst ` set (Associations e) \<and>
         (\<forall>k. k \<noteq> name \<longrightarrow> map_of (Associations e) k = map_of associations k)))
   \<and> (reachable u db \<longrightarrow> assoc_isolated db)"
proof (intro conjI impI)
  assume s: "schemas db name = Some sdb" and h: "\<not> NoHistory sdb"
    and i: "DB_Insert name obj associations db = (Ok (), db')"
  obtain sdb' where ok: "SchemaDB_Insert obj (CopyWithoutClass associations name) sdb = Ok sdb'"
    and db': "db' = db\<lparr>schemas := (schemas db)(name \<mapsto> sdb')\<rparr>"
    using s i by (auto simp: DB_Insert_def split: outcome.splits)
  let ?e = "\<lparr>Data = obj, Associations = CopyWithoutClass associations name\<rparr>"
  have "Objects sdb' = Objects sdb @ [?e]"
    using SchemaDB_Insert_Ok[OF ok] h by simp
  moreover have "schemas db' name = Some sdb'" using db' by simp
  moreover have "name \<notin> fst ` set (Associations ?e)"
    using CopyWithoutClass_key[of name associations] by simp
  moreover have "\<forall>k. k \<noteq> name \<longrightarrow> map_of (Associations ?e) k = map_of associations k"
    by (simp add: CopyWithoutClass_other)
  ultimately show "\<exists>sdb' e. schemas db' name = Some sdb' \<and> Objects sdb' = Objects sdb @ [e] \<and>
         Data e = obj \<and> name \<notin> fst ` set (Associations e) \<and>
         (\<forall>k. k \<noteq> name \<longrightarrow> map_of (Associations e) k = map_of associations k)"
    by (intro exI[of _ sdb'] exI[of _ ?e]) simp
next
  assume "reachable u db"
  then show "assoc_isolated db" by (rule reachable_isolated)
qed

theorem association_isolation_witness:
  "schemas (DB_Init example_swagger) ''A'' =
     Some \<lparr>Name = ''A'', Schema = \<lparr>Ref = [], Value = Some 0\<rparr>, NoHistory = False, Objects = []\<rparr>
   \<and> ''A'' \<in> fst ` set example_assoc
   \<and> DB_Insert ''A'' example_obj example_assoc (DB_Init example_swagger) = (Ok (), example_db1)
   \<and> map_option Objects (schemas example_db1 ''A'')
      = Some [\<lparr>Data = example_obj, Associations = [(''B'', VMap [(''id'', VInt 2)])]\<rparr>]
   \<and> reachable example_mqutil example_db1
   \<and> assoc_isolated example_db1"
proof -
  let ?db = "DB_Init example_swagger"
  let ?sdb = "\<lparr>Name = ''A'', Schema = \<lparr>Ref = [], Value = Some 0\<rparr>, NoHistory = False, Objects = []\<rparr>"
  have s: "schemas ?db ''A'' = Some ?sdb"
    by (simp add: DB_Init_def example_swagger_def)
  have m: "''A'' \<in> fst ` set example_assoc"
    by (simp add: example_assoc_def)
  have i: "DB_Insert ''A'' example_obj example_assoc ?db = (Ok (), example_db1)"
    by (simp add: DB_Insert_def s SchemaDB_Insert_def example_obj_def example_db1_def)
  have o: "map_option Objects (schemas example_db1 ''A'') =
      Some [\<lparr>Data = example_obj, Associations = [(''B'', VMap [(''id'', VInt 2)])]\<rparr>]"
    by (simp add: example_db1_def example_assoc_def CopyWithoutClass_def)
  have re: "reachable example_mqutil example_db1"
    by (rule r_Insert[OF r_Init i])
  have a: "reachable example_mqutil example_db1 \<longrightarrow> assoc_isolated example_db1"
    by (rule conjunct2[OF association_isolation])
  have "assoc_isolated example_db1"
    by (rule mp[OF a re])
  with s m i o re show ?thesis by (intro conjI)
qed

text \<open>
  Claim C6 as stated (a NotFound-kind error) fails: for a class that is not registered the
  error \<open>DB.Insert\<close> returns is of kind \<open>ErrInternal\<close>.
\<close>

theorem Insert_unknown_class_counterexample:
  "schemas (DB_Init example_swagger) ''C'' = None \<and>
   error_kind (fst (DB_Insert ''C'' example_obj example_assoc (DB_Init example_swagger)))
     \<noteq> Some ErrNotFound"
  by (simp add: DB_Init_def example_swagger_def DB_Insert_def error_kind_def)

text \<open>
  Claim C6, amended: for every class name not registered in the store, \<open>DB.Insert\<close>
  returns an error of kind \<open>ErrInternal\<close> (message "inserting into non-existing schema:"
  followed by the name) and leaves the store unchanged.
\<close>

theorem Insert_unknown_class:
  "schemas db name = None \<Longrightarrow>
   DB_Insert name obj associations db =
     (Err (NewError ErrInternal (''inserting into non-existing schema: '' @ name)), db)
   \<and> error_kind (fst (DB_Insert name obj associations db)) = Some ErrInternal"
  by (simp add: DB_Insert_def error_kind_def)

theorem Insert_unknown_class_witness:
  "schemas (DB_Init example_swagger) ''C'' = None \<and>
   DB_Insert ''C'' example_obj example_assoc (DB_Init example_swagger) =
     (Err (NewError ErrInternal ''inserting into non-existing schema: C''), DB_Init example_swagger)"
proof -
  have n: "schemas (DB_Init example_swagger) ''C'' = None"
    by (simp add: DB_Init_def example_swagger_def)
  from Insert_unknown_class[OF n, of example_obj example_assoc]
  have "DB_Insert ''C'' example_obj example_assoc (DB_Init example_swagger) =
     (Err (NewError ErrInternal (''inserting into non-existing schema: '' @ ''C'')),
      DB_Init example_swagger)" by (rule conjunct1)
  then have "DB_Insert ''C'' example_obj example_assoc (DB_Init example_swagger) =
     (Err (NewError ErrInternal ''inserting into non-existing schema: C''),
      DB_Init example_swagger)" by simp
  with n show ?thesis by (rule conjI)
qed

text \<open>
  Claim C10. For every schema name not registered in the store, \<open>DB.Find\<close> returns the
  empty result, \<open>DB.Delete\<close> returns 0 and \<open>DB.Update\<close> returns 0; none of them raises an
  error and each leaves the store unchanged.
\<close>

theorem unknown_schema_Find_Delete_Update:
  "schemas db name = None \<Longrightarrow>
   DB_Find u name criteria associations matches desiredCount db = ([], db) \<and>
   DB_Delete u name criteria associations matches desiredCount db = (0, db) \<and>
   DB_Update u name criteria associations matches newObj desiredCount patch db = (0, db)"
  by (simp add: DB_Find_def DB_Delete_def DB_Update_def)

theorem unknown_schema_Find_Delete_Update_witness:
  "schemas (DB_Init example_swagger) ''C'' = None \<and>
   DB_Find example_mqutil ''C'' VNil example_assoc MatchAlways (-1) (DB_Init example_swagger)
     = ([], DB_Init example_swagger) \<and>
   DB_Delete example_mqutil ''C'' VNil example_assoc MatchAlways (-1) (DB_Init example_swagger)
     = (0, DB_Init example_swagger) \<and>
   DB_Update example_mqutil ''C'' VNil example_assoc MatchAlways example_obj (-1) False
       (DB_Init example_swagger)
     = (0, DB_Init example_swagger)"
proof -
  have n: "schemas (DB_Init example_swagger) ''C'' = None"
    by (simp add: DB_Init_def example_swagger_def)
  show ?thesis
    by (rule conjI[OF n]) (rule unknown_schema_Find_Delete_Update[OF n])
qed

section \<open>Properties of the value generator\<close>

lemma generateFloat_returns: "\<exists>x r'. generateFloat v r = (Ok x, r')"
  by (cases "Minimum v"; cases "Maximum v")
     (simp_all add: generateFloat_def Let_def rand_Float64_def)

lemma generateFloat_half_conflicting: "generateFloat conflicting_bounds half = (Ok 15, half)"
  by (simp add: generateFloat_def conflicting_bounds_def no_validations_def rand_Float64_def
      half_def)

text \<open>
  Claim C5 says that a numeric parameter whose declared minimum is not below its declared
  maximum makes generation fail with an Invalid-kind error. The code does not: for a
  minimum of 10 and a maximum of 5 (no exclusive flags) and a draw of one half,
  \<open>generateFloat\<close> and \<open>generateInt\<close> both return 15 and no error. The branch that builds
  the error comes after the test \<open>v.Minimum != nil\<close>, which holds whenever both bounds are
  declared.
\<close>

theorem generate_conflicting_bounds:
  "Minimum conflicting_bounds = Some 10 \<and> Maximum conflicting_bounds = Some 5 \<and>
   generateFloat conflicting_bounds half = (Ok 15, half) \<and>
   generateInt conflicting_bounds half = (Ok 15, half)"
proof -
  have "generateInt conflicting_bounds half = (Ok 15, half)"
    by (simp add: generateInt_def generateFloat_half_conflicting)
       (simp add: conflicting_bounds_def no_validations_def int64_of_def)
  then show ?thesis
    by (simp add: generateFloat_half_conflicting) (simp add: conflicting_bounds_def no_validations_def)
qed

text \<open>
  Claim C8 as stated (a "not implemented" failure returned as an error value, no crash)
  fails: for a parameter with a body schema \<open>generateParameter\<close> panics.
\<close>

theorem body_schema_counterexample:
  "Param_Schema body_param \<noteq> None \<and>
   fst (generateParameter example_libs body_param example_db1 half) = Panic ''not implemented''"
  by (simp add: generateParameter_def body_param_def generateBySchema_def)

text \<open>
  Claim C8, amended: for every parameter definition that names a body schema, parameter
  generation does not succeed and returns no error value: it panics with the message
  "not implemented", before any random draw.
\<close>

theorem body_schema_panics:
  "Param_Schema paramSpec = Some schema \<Longrightarrow>
   generateParameter L paramSpec db r = (Panic ''not implemented'', r)"
  by (simp add: generateParameter_def generateBySchema_def)

theorem body_schema_panics_witness:
  "Param_Schema body_param = Some (spec_Schema ''{type: object}'') \<and>
   generateParameter example_libs body_param example_db1 half = (Panic ''not implemented'', half)"
proof -
  have s: "Param_Schema body_param = Some (spec_Schema ''{type: object}'')"
    by (simp add: body_param_def)
  show ?thesis
    by (rule conjI[OF s]) (rule body_schema_panics[OF s])
qed

section \<open>Properties of parameter resolution\<close>

text \<open>
  The loop over the declared parameters, for a test whose parameter map is not nil: it
  stops at the first declared parameter that the test does not supply.
\<close>

lemma ResolveParameters_loop_first:
  assumes "Parameters t = Some m"
  shows "ResolveParameters_loop L db ps t r =
     (case find (\<lambda>p. m (Param_Name p) = None) ps of
        None \<Rightarrow> ((Ok (), t), r)
      | Some p \<Rightarrow>
          (case generateParameter L p db r of
             (Ok v, r') \<Rightarrow> ((Ok (), t\<lparr>Parameters := Some (m(Param_Name p \<mapsto> v))\<rparr>), r')
           | (Err e, r') \<Rightarrow> ((Err e, t), r')
           | (Panic msg, r') \<Rightarrow> ((Panic msg, t), r')))"
  using assms
proof (induction ps)
  case Nil
  show ?case by simp
next
  case (Cons p ps)
  show ?case
  proof (cases "m (Param_Name p) = None")
    case True
    with Cons.prems show ?thesis
      by (simp split: prod.splits outcome.splits)
  next
    case False
    then obtain y where "m (Param_Name p) = Some y" by auto
    with Cons show ?thesis by simp
  qed
qed

text \<open>
  Claim C9 as stated fails in its last part ("then returns success"): when the first
  missing parameter cannot be generated, \<open>ResolveParameters\<close> returns the generator's error.
  The operation \<open>GET /pet/findByTags\<close> is registered and declares one parameter without a
  type.
\<close>

theorem ResolveParameters_counterexample:
  "getOperationByMethod
     (case Paths example_doc (Path findByTags_test) of None \<Rightarrow> zero_PathItem | Some item \<Rightarrow> item)
     (Method findByTags_test) = Some \<lparr>op_Parameters = [untyped_param]\<rparr> \<and>
   ResolveParameters example_libs findByTags_test example_doc example_db1 half =
     ((Err (NewError ErrInvalid ''Parameter doesn't have type''), findByTags_test), half)"
  by (simp add: ResolveParameters_def findByTags_test_def example_doc_def
      getOperationByMethod_def zero_PathItem_def generateParameter_def untyped_param_def
      no_validations_def)

text \<open>
  Claim C9, amended. For every test whose (path, method) operation is registered and whose
  parameter map is not nil: if the test supplies every declared parameter,
  \<open>ResolveParameters\<close> returns success and changes nothing; otherwise it generates a value
  for the first declared parameter that is not supplied, and either stores that one value
  under the parameter's name and returns success, or, when generation fails, returns the
  generator's error (or panics as the generator does) and stores nothing. Every supplied
  value stays as it was.
\<close>

theorem ResolveParameters_single:
  assumes "getOperationByMethod
             (case Paths swagger (Path t) of None \<Rightarrow> zero_PathItem | Some item \<Rightarrow> item)
             (Method t) = Some op"
    and "Parameters t = Some m"
  shows "ResolveParameters L t swagger db r =
     (case find (\<lambda>p. m (Param_Name p) = None) (op_Parameters op) of
        None \<Rightarrow> ((Ok (), t), r)
      | Some p \<Rightarrow>
          (case generateParameter L p db r of
             (Ok v, r') \<Rightarrow> ((Ok (), t\<lparr>Parameters := Some (m(Param_Name p \<mapsto> v))\<rparr>), r')
           | (Err e, r') \<Rightarrow> ((Err e, t), r')
           | (Panic msg, r') \<Rightarrow> ((Panic msg, t), r')))
     \<and> (\<exists>m'. Parameters (snd (fst (ResolveParameters L t swagger db r))) = Some m' \<and>
            (\<forall>k v. m k = Some v \<longrightarrow> m' k = Some v) \<and>
            (\<forall>k. m' k \<noteq> None \<longrightarrow> m k \<noteq> None \<or>
                   map_option Param_Name (find (\<lambda>p. m (Param_Name p) = None) (op_Parameters op))
                     = Some k))"
proof -
  let ?f = "find (\<lambda>p. m (Param_Name p) = None) (op_Parameters op)"
  have eq: "ResolveParameters L t swagger db r =
     (case ?f of
        None \<Rightarrow> ((Ok (), t), r)
      | Some p \<Rightarrow>
          (case generateParameter L p db r of
             (Ok v, r') \<Rightarrow> ((Ok (), t\<lparr>Parameters := Some (m(Param_Name p \<mapsto> v))\<rparr>), r')
           | (Err e, r') \<Rightarrow> ((Err e, t), r')
           | (Panic msg, r') \<Rightarrow> ((Panic msg, t), r')))"
    using assms(1) by (simp add: ResolveParameters_def ResolveParameters_loop_first[OF assms(2)])
  have frame: "\<exists>m'. Parameters (snd (fst (ResolveParameters L t swagger db r))) = Some m' \<and>
            (\<forall>k v. m k = Some v \<longrightarrow> m' k = Some v) \<and>
            (\<forall>k. m' k \<noteq> None \<longrightarrow> m k \<noteq> None \<or> map_option Param_Name ?f = Some k)"
  proof (cases ?f)
    case None
    with eq assms(2) show ?thesis by simp
  next
    case (Some p)
    then have miss: "m (Param_Name p) = None"
      by (auto simp: find_Some_iff)
    obtain res r' where g: "generateParameter L p db r = (res, r')" by force
    show ?thesis
    proof (cases res)
      case (Ok v)
      have "Parameters (snd (fst (ResolveParameters L t swagger db r)))
              = Some (m(Param_Name p \<mapsto> v))"
        using eq Some g Ok by simp
      moreover have "\<forall>k w. m k = Some w \<longrightarrow> (m(Param_Name p \<mapsto> v)) k = Some w"
        using miss by auto
      moreover have "\<forall>k. (m(Param_Name p \<mapsto> v)) k \<noteq> None \<longrightarrow>
              m k \<noteq> None \<or> map_option Param_Name ?f = Some k"
        using Some by auto
      ultimately show ?thesis by blast
    next
      case (Err e)
      with eq Some g assms(2) show ?thesis by simp
    next
      case (Panic msg)
      with eq Some g assms(2) show ?thesis by simp
    qed
  qed
  from eq frame show ?thesis by (rule conjI)
qed

theorem ResolveParameters_single_witness:
  "getOperationByMethod
     (case Paths example_doc (Path findByStatus_test) of None \<Rightarrow> zero_PathItem | Some item \<Rightarrow> item)
     (Method findByStatus_test) = Some \<lparr>op_Parameters = [status_param, limit_param]\<rparr> \<and>
   Parameters findByStatus_test = Some (\<lambda>k. None) \<and>
   ResolveParameters example_libs findByStatus_test example_doc example_db1 half =
     ((Ok (), findByStatus_test\<lparr>Parameters := Some ((\<lambda>k. None)(''status'' \<mapsto> VString ''pending''))\<rparr>),
      half)"
proof -
  have o: "getOperationByMethod
     (case Paths example_doc (Path findByStatus_test) of None \<Rightarrow> zero_PathItem | Some item \<Rightarrow> item)
     (Method findByStatus_test) = Some \<lparr>op_Parameters = [status_param, limit_param]\<rparr>"
    by (simp add: findByStatus_test_def example_doc_def getOperationByMethod_def zero_PathItem_def)
  have m: "Parameters findByStatus_test = Some (\<lambda>k. None)"
    by (simp add: findByStatus_test_def)
  have g: "generateParameter example_libs status_param example_db1 half
             = (Ok (VString ''pending''), half)"
    by (simp add: generateParameter_def status_param_def no_validations_def generateByEnum_def
        rand_Intn_def half_def example_libs_def example_Sprint_def)
  have n: "Param_Name status_param = ''status''" by (simp add: status_param_def)
  from ResolveParameters_single[OF o m, of example_libs example_db1 half]
  have "ResolveParameters example_libs findByStatus_test example_doc example_db1 half =
     (case find (\<lambda>p. (\<lambda>k. None) (Param_Name p) = (None :: jvalue option))
             (op_Parameters \<lparr>op_Parameters = [status_param, limit_param]\<rparr>) of
        None \<Rightarrow> ((Ok (), findByStatus_test), half)
      | Some p \<Rightarrow>
          (case generateParameter example_libs p example_db1 half of
             (Ok v, r') \<Rightarrow> ((Ok (), findByStatus_test\<lparr>Parameters :=
                                 Some ((\<lambda>k. None)(Param_Name p \<mapsto> v))\<rparr>), r')
           | (Err e, r') \<Rightarrow> ((Err e, findByStatus_test), r')
           | (Panic msg, r') \<Rightarrow> ((Panic msg, findByStatus_test), r')))"
    by (rule conjunct1)
  then have "ResolveParameters example_libs findByStatus_test example_doc example_db1 half =
     ((Ok (), findByStatus_test\<lparr>Parameters := Some ((\<lambda>k. None)(''status'' \<mapsto> VString ''pending''))\<rparr>),
      half)"
    by (simp add: g n)
  with o m show ?thesis by (intro conjI)
qed

section \<open>Properties of the test plan\<close>

lemma Add_keeps:
  assumes "CaseMap plan = Some m" and "m name = Some tc"
  shows "\<exists>m'. CaseMap (snd (Add n c plan)) = Some m' \<and> m' name = Some tc"
  using assms by (auto simp: Add_def)

lemma AddFromString_loop_keeps:
  assumes "CaseMap plan = Some m" and "m name = Some tc"
  shows "\<exists>m'. CaseMap (snd (AddFromString_loop L cs plan)) = Some m' \<and> m' name = Some tc"
  using assms
proof (induction cs arbitrary: plan m)
  case Nil
  then show ?case by simp
next
  case (Cons x cs)
  obtain n c where x: "x = (n, c)" by (cases x)
  show ?case
  proof (cases "upper_methods L c")
    case (Ok c')
    obtain res plan' where a: "Add n c' plan = (res, plan')" by force
    from Add_keeps[OF Cons.prems, of n c'] a
    obtain m' where m': "CaseMap plan' = Some m'" "m' name = Some tc" by auto
    show ?thesis
    proof (cases res)
      case Ok2: (Ok u)
      from Cons.IH[OF m'] show ?thesis using x Ok a Ok2 by simp
    next
      case (Err e)
      with x Ok a m' show ?thesis by simp
    next
      case (Panic msg)
      with x Ok a m' show ?thesis by simp
    qed
  next
    case (Err e)
    with x Cons.prems show ?thesis by simp
  next
    case (Panic msg)
    with x Cons.prems show ?thesis by simp
  qed
qed

lemma AddFromString_keeps:
  assumes "CaseMap plan = Some m" and "m name = Some tc"
  shows "\<exists>m'. CaseMap (snd (AddFromString L data plan)) = Some m' \<and> m' name = Some tc"
proof (cases "yaml_Unmarshal L data")
  case (Inl e)
  with assms show ?thesis by (simp add: AddFromString_def)
next
  case (Inr cs)
  with AddFromString_loop_keeps[OF assms, of L cs] show ?thesis by (simp add: AddFromString_def)
qed

lemma InitFromFile_loop_keeps:
  assumes "CaseMap plan = Some m" and "m name = Some tc"
  shows "\<exists>m'. CaseMap (snd (InitFromFile_loop L chunks plan)) = Some m' \<and> m' name = Some tc"
  using assms
proof (induction chunks arbitrary: plan m)
  case Nil
  then show ?case by simp
next
  case (Cons chunk chunks)
  obtain res plan' where a: "AddFromString L chunk plan = (res, plan')" by force
  from AddFromString_keeps[OF Cons.prems, of L chunk] a
  obtain m' where m': "CaseMap plan' = Some m'" "m' name = Some tc" by auto
  show ?case
  proof (cases res)
    case (Ok u)
    from Cons.IH[OF m'] show ?thesis using a Ok by simp
  next
    case (Err e)
    from Cons.IH[OF m'] show ?thesis using a Err by simp
  next
    case (Panic msg)
    with a m' show ?thesis by simp
  qed
qed

lemma example_Split:
  "strings_Split (example_chunk1 @ ''---'' @ example_chunk2) ''---''
     = [example_chunk1, example_chunk2]"
  by (simp add: strings_Split_def example_chunk1_def example_chunk2_def)

lemma example_Unmarshal1:
  "yaml_Unmarshal example_libs example_chunk1 = Inr [(''dup'', [Some example_test1])]"
  by (simp add: example_libs_def)

lemma example_Unmarshal2:
  "yaml_Unmarshal example_libs example_chunk2 = Inr [(''dup'', [Some example_test2])]"
  by (simp add: example_libs_def example_chunk1_def example_chunk2_def)

lemma example_AddFromString1:
  "AddFromString example_libs example_chunk1 empty_plan = (Ok (), example_plan1)"
  by (simp add: AddFromString_def example_Unmarshal1 Add_def empty_plan_def example_plan1_def
        example_test1_def)
     (simp add: example_libs_def ascii_upper_def)

lemma example_AddFromString2:
  "AddFromString example_libs example_chunk2 example_plan1 =
     (Err (errors_New ''Duplicate name dup found in test plan''), example_plan1)"
  by (simp add: AddFromString_def example_Unmarshal2 Add_def example_plan1_def example_test2_def)

lemma example_ReadFile:
  "ioutil_ReadFile example_libs ''testplan.yml''
     = Inr (example_chunk1 @ ''---'' @ example_chunk2)"
  by (simp add: example_libs_def)

lemma example_InitFromFile:
  "InitFromFile example_libs ''testplan.yml'' empty_plan = (Ok (), example_plan1)"
proof -
  have e: "empty_plan\<lparr>CaseMap := Some (\<lambda>name. None), CaseList := []\<rparr> = empty_plan"
    by (simp add: empty_plan_def)
  show ?thesis
    by (simp only: InitFromFile_def Let_def example_ReadFile e sum.case example_Split
          InitFromFile_loop.simps example_AddFromString1 example_AddFromString2
          prod.case outcome.case)
qed

text \<open>
  Claim C7 as stated fails. The file \<open>testplan.yml\<close> holds two documents, each with one
  case named \<open>dup\<close>. Loading it reports no error, and afterwards the first of the two cases
  is in the plan, under its name and in the list of cases.
\<close>

theorem InitFromFile_duplicate_counterexample:
  "ioutil_ReadFile example_libs ''testplan.yml''
     = Inr (example_chunk1 @ ''---'' @ example_chunk2) \<and>
   yaml_Unmarshal example_libs example_chunk1 = Inr [(''dup'', [Some example_test1])] \<and>
   yaml_Unmarshal example_libs example_chunk2 = Inr [(''dup'', [Some example_test2])] \<and>
   fst (InitFromFile example_libs ''testplan.yml'' empty_plan) = Ok () \<and>
   map_option (\<lambda>m. m ''dup'') (CaseMap (snd (InitFromFile example_libs ''testplan.yml'' empty_plan)))
     = Some (Some [Some (example_test1\<lparr>Method := ''GET''\<rparr>)]) \<and>
   CaseList (snd (InitFromFile example_libs ''testplan.yml'' empty_plan))
     = [[Some (example_test1\<lparr>Method := ''GET''\<rparr>)]]"
  by (simp add: example_ReadFile example_Unmarshal1 example_Unmarshal2 example_InitFromFile)
     (simp add: example_plan1_def)

text \<open>
  Claim C7, amended. Adding a test case under a name that is already in the plan fails
  with the error "Duplicate name ... found in test plan" and leaves the plan as it was: the
  later case is not added. The case registered first stays registered under that name
  through the rest of the load, whatever documents follow.
\<close>

theorem Add_duplicate_rejected:
  assumes "CaseMap plan = Some m" and "m name = Some first"
  shows "Add name testCase plan =
           (Err (errors_New (''Duplicate name '' @ name @ '' found in test plan'')), plan)
         \<and> (\<exists>m'. CaseMap (snd (InitFromFile_loop L chunks plan)) = Some m' \<and>
                   m' name = Some first)"
proof
  show "Add name testCase plan =
           (Err (errors_New (''Duplicate name '' @ name @ '' found in test plan'')), plan)"
    using assms by (simp add: Add_def)
  show "\<exists>m'. CaseMap (snd (InitFromFile_loop L chunks plan)) = Some m' \<and> m' name = Some first"
    by (rule InitFromFile_loop_keeps[OF assms])
qed

theorem Add_duplicate_rejected_witness:
  "CaseMap example_plan1
     = Some ((\<lambda>name. None)(''dup'' \<mapsto> [Some (example_test1\<lparr>Method := ''GET''\<rparr>)])) \<and>
   Add ''dup'' [Some (example_test2\<lparr>Method := ''GET''\<rparr>)] example_plan1 =
     (Err (errors_New ''Duplicate name dup found in test plan''), example_plan1) \<and>
   (\<exists>m'. CaseMap (snd (InitFromFile_loop example_libs [example_chunk2] example_plan1)) = Some m' \<and>
          m' ''dup'' = Some [Some (example_test1\<lparr>Method := ''GET''\<rparr>)])"
proof -
  let ?m = "(\<lambda>name. None)(''dup'' \<mapsto> [Some (example_test1\<lparr>Method := ''GET''\<rparr>)])"
  have c: "CaseMap example_plan1 = Some ?m"
    by (simp add: example_plan1_def)
  have d: "?m ''dup'' = Some [Some (example_test1\<lparr>Method := ''GET''\<rparr>)]"
    by simp
  from Add_duplicate_rejected[OF c d, of "[Some (example_test2\<lparr>Method := ''GET''\<rparr>)]"
      example_libs "[example_chunk2]"]
  have "Add ''dup'' [Some (example_test2\<lparr>Method := ''GET''\<rparr>)] example_plan1 =
     (Err (errors_New (''Duplicate name '' @ ''dup'' @ '' found in test plan'')), example_plan1) \<and>
   (\<exists>m'. CaseMap (snd (InitFromFile_loop example_libs [example_chunk2] example_plan1)) = Some m' \<and>
          m' ''dup'' = Some [Some (example_test1\<lparr>Method := ''GET''\<rparr>)])" .
  then show ?thesis using c by simp
qed

section \<open>Properties of the schema traversal\<close>

lemma Iterate_all_returns:
  assumes "\<And>c ctx. c \<in> set cs \<Longrightarrow> \<exists>res. Iterate n E sw f c w ctx = Some res"
  shows "\<exists>res. Iterate_all n E sw f cs w ctx = Some res"
  using assms
proof (induction cs arbitrary: ctx)
  case Nil
  show ?case by (simp add: Iterate.simps)
next
  case (Cons c cs)
  obtain o1 c1 where r: "Iterate n E sw f c w ctx = Some (o1, c1)"
    using Cons.prems[of c ctx] by auto
  have rest: "\<exists>res. Iterate_all n E sw f cs w c1 = Some res"
  proof (rule Cons.IH)
    fix c' ctx' assume "c' \<in> set cs"
    then show "\<exists>res. Iterate n E sw f c' w ctx' = Some res"
      using Cons.prems[of c' ctx'] by simp
  qed
  show ?case
    using r rest by (cases o1) (simp_all add: Iterate.simps)
qed

lemma Iterate_returns:
  assumes rank: "\<And>s c. c \<in> set (Iterate_children E sw s) \<Longrightarrow> rank c < rank s"
  shows "rank s < n \<Longrightarrow> \<exists>res. Iterate n E sw f s False ctx = Some res"
proof (induction n arbitrary: s ctx)
  case 0
  then show ?case by simp
next
  case (Suc n)
  have kids: "\<exists>res. Iterate n E sw f c False ctx' = Some res"
    if "c \<in> set (Iterate_children E sw s)" for c ctx'
  proof -
    from rank[OF that] Suc.prems have "rank c < n" by simp
    then show ?thesis by (rule Suc.IH)
  qed
  show ?case
  proof (cases "deref sw s")
    case None
    then show ?thesis by (simp add: Iterate.simps)
  next
    case (Some v)
    show ?thesis
    proof (cases "tagged_Weak E v")
      case True
      with Some show ?thesis by (simp add: Iterate.simps)
    next
      case nw: False
      obtain o1 c1 where vis: "f [] s ctx = (o1, c1)" by force
      show ?thesis
      proof (cases o1)
        case (Err e)
        with Some nw vis show ?thesis by (simp add: Iterate.simps)
      next
        case (Panic m)
        with Some nw vis show ?thesis by (simp add: Iterate.simps)
      next
        case (Ok u)
        show ?thesis
        proof (cases "length (AllOf v) > 0")
          case True
          have ch: "Iterate_children E sw s = AllOf v"
            using Some nw True by (simp add: Iterate_children_def)
          have "\<exists>res. Iterate_all n E sw f (AllOf v) False c1 = Some res"
          proof (rule Iterate_all_returns)
            fix c ctx' assume "c \<in> set (AllOf v)"
            then have "c \<in> set (Iterate_children E sw s)" by (simp add: ch)
            then show "\<exists>res. Iterate n E sw f c False ctx' = Some res" by (rule kids)
          qed
          with Some nw vis Ok True show ?thesis by (simp add: Iterate.simps)
        next
          case noall: False
          show ?thesis
          proof (cases "GetReferredSchema sw s")
            case (Err e)
            with Some nw vis Ok noall show ?thesis by (simp add: Iterate.simps)
          next
            case (Panic m)
            with Some nw vis Ok noall show ?thesis by (simp add: Iterate.simps)
          next
            case ref: (Ok p)
            obtain nm r where p: "p = (nm, r)" by (cases p)
            show ?thesis
            proof (cases "Value r")
              case (Some a)
              with \<open>deref sw s = Some v\<close> nw vis Ok noall ref p show ?thesis
                by (simp add: Iterate.simps split: option.splits)
            next
              case None
              define props where
                "props = (if strings_Contains (Type v) TYPE_OBJECT then map snd (Properties v) else [])"
              define items where
                "items = (if strings_Contains (Type v) TYPE_ARRAY
                          then (case Items v of None \<Rightarrow> [] | Some itemSchema \<Rightarrow> [itemSchema])
                          else [])"
              have ch: "Iterate_children E sw s = props @ items"
                using \<open>deref sw s = Some v\<close> nw noall ref p None
                by (simp add: Iterate_children_def props_def items_def)
              have a: "\<exists>res. Iterate_all n E sw f props False c1 = Some res"
              proof (rule Iterate_all_returns)
                fix c ctx' assume "c \<in> set props"
                then have "c \<in> set (Iterate_children E sw s)" by (simp add: ch)
                then show "\<exists>res. Iterate n E sw f c False ctx' = Some res" by (rule kids)
              qed
              have b: "\<exists>res. Iterate n E sw f it False c' = Some res"
                if "strings_Contains (Type v) TYPE_ARRAY" "Items v = Some it" for it c'
              proof -
                from that have "it \<in> set items" by (simp add: items_def)
                then have "it \<in> set (Iterate_children E sw s)" by (simp add: ch)
                then show ?thesis by (rule kids)
              qed
              obtain o2 c2 where ob: "(if strings_Contains (Type v) TYPE_OBJECT
                                 then Iterate_all n E sw f (map snd (Properties v)) False c1
                                 else Some (Ok (), c1)) = Some (o2, c2)"
                using a by (cases "strings_Contains (Type v) TYPE_OBJECT")
                  (auto simp: Iterate.simps props_def)
              show ?thesis
              proof (cases o2)
                case (Err e)
                with \<open>deref sw s = Some v\<close> nw vis Ok noall ref p None ob show ?thesis
                  by (simp add: Iterate.simps)
              next
                case (Panic m)
                with \<open>deref sw s = Some v\<close> nw vis Ok noall ref p None ob show ?thesis
                  by (simp add: Iterate.simps)
              next
                case ok2: (Ok u2)
                show ?thesis
                proof (cases "strings_Contains (Type v) TYPE_ARRAY")
                  case False
                  with \<open>deref sw s = Some v\<close> nw vis Ok noall ref p None ob ok2 show ?thesis
                    by (simp add: Iterate.simps)
                next
                  case arr: True
                  show ?thesis
                  proof (cases "Items v")
                    case None2: None
                    with \<open>deref sw s = Some v\<close> nw vis Ok noall ref p None ob ok2 arr show ?thesis
                      by (simp add: Iterate.simps)
                  next
                    case (Some it)
                    from b[OF arr Some, of c2] obtain res where
                      "Iterate n E sw f it False c2 = Some res" by auto
                    with \<open>deref sw s = Some v\<close> nw vis Ok noall ref p None ob ok2 arr Some
                    show ?thesis by (simp add: Iterate.simps)
                  qed
                qed
              qed
            qed
          qed
        qed
      qed
    qed
  qed
qed

lemma visits_added_refl: "visits_added E sw l l"
  by (simp add: visits_added_def)

lemma visits_added_trans:
  "visits_added E sw l0 l1 \<Longrightarrow> visits_added E sw l1 l2 \<Longrightarrow> visits_added E sw l0 l2"
  unfolding visits_added_def by (metis append.assoc list_all_append)

lemma visits_added_snoc:
  "visit_allowed E sw nm node \<Longrightarrow> visits_added E sw l (l @ [(nm, node)])"
  by (simp add: visits_added_def)

lemma Iterate_all_visits:
  assumes "\<And>c l0 res l. c \<in> set cs \<Longrightarrow> Iterate n E sw log_visitor c False l0 = Some (res, l)
             \<Longrightarrow> visits_added E sw l0 l"
  shows "Iterate_all n E sw log_visitor cs False l0 = Some (res, l) \<Longrightarrow> visits_added E sw l0 l"
  using assms
proof (induction cs arbitrary: l0)
  case Nil
  then show ?case by (simp add: Iterate.simps visits_added_refl)
next
  case (Cons c cs)
  from Cons.prems(1) obtain o1 l1 where r: "Iterate n E sw log_visitor c False l0 = Some (o1, l1)"
    by (auto simp: Iterate.simps split: option.splits)
  have s1: "visits_added E sw l0 l1"
    by (rule Cons.prems(2)[OF _ r]) simp
  show ?case
  proof (cases o1)
    case (Ok u)
    with Cons.prems(1) r have "Iterate_all n E sw log_visitor cs False l1 = Some (res, l)"
      by (simp add: Iterate.simps)
    then have "visits_added E sw l1 l"
      by (rule Cons.IH) (use Cons.prems(2) in auto)
    with s1 show ?thesis by (rule visits_added_trans)
  next
    case (Err e)
    with Cons.prems(1) r s1 show ?thesis by (simp add: Iterate.simps)
  next
    case (Panic m)
    with Cons.prems(1) r s1 show ?thesis by (simp add: Iterate.simps)
  qed
qed

lemma Iterate_visits:
  "Iterate n E sw log_visitor s False l0 = Some (res, l) \<Longrightarrow> visits_added E sw l0 l"
proof (induction n arbitrary: s l0 res l)
  case 0
  then show ?case by (simp add: Iterate.simps)
next
  case (Suc n)
  note run = Suc.prems
  show ?case
  proof (cases "deref sw s")
    case None
    with run show ?thesis by (simp add: Iterate.simps visits_added_refl)
  next
    case (Some v)
    show ?thesis
    proof (cases "tagged_Weak E v")
      case True
      with Some run show ?thesis by (simp add: Iterate.simps visits_added_refl)
    next
      case nw: False
      let ?l1 = "l0 @ [([], s)]"
      have lv: "log_visitor [] s l0 = (Ok (), ?l1)"
        by (simp add: log_visitor_def)
      have first: "visits_added E sw l0 ?l1"
        by (rule visits_added_snoc) (simp add: visit_allowed_def Some nw)
      show ?thesis
      proof (cases "length (AllOf v) > 0")
        case True
        with Some nw run have "Iterate_all n E sw log_visitor (AllOf v) False ?l1 = Some (res, l)"
          by (simp add: Iterate.simps lv)
        then have "visits_added E sw ?l1 l"
          by (rule Iterate_all_visits[rotated]) (rule Suc.IH)
        with first show ?thesis by (rule visits_added_trans)
      next
        case noall: False
        show ?thesis
        proof (cases "GetReferredSchema sw s")
          case (Err e)
          with Some nw noall run first show ?thesis
            by (simp add: Iterate.simps lv)
        next
          case (Panic m)
          with Some nw noall run first show ?thesis
            by (simp add: Iterate.simps lv)
        next
          case ref: (Ok p)
          obtain nm r where p: "p = (nm, r)" by (cases p)
          show ?thesis
          proof (cases "Value r")
            case vr: (Some a)
            show ?thesis
            proof (cases "deref sw r")
              case None
              with \<open>deref sw s = Some v\<close> nw noall run first ref p vr show ?thesis
                by (simp add: Iterate.simps lv)
            next
              case rv: (Some rv)
              show ?thesis
              proof (cases "tagged_Weak E rv")
                case True
                with \<open>deref sw s = Some v\<close> nw noall run first ref p vr rv show ?thesis
                  by (simp add: Iterate.simps lv)
              next
                case False
                have "visit_allowed E sw nm r"
                  unfolding visit_allowed_def
                  using rv False \<open>deref sw s = Some v\<close> nw ref p by blast
                then have "visits_added E sw ?l1 (?l1 @ [(nm, r)])"
                  by (rule visits_added_snoc)
                moreover have "log_visitor nm r ?l1 = (Ok (), ?l1 @ [(nm, r)])"
                  by (simp add: log_visitor_def)
                then have "l = ?l1 @ [(nm, r)]"
                  using \<open>deref sw s = Some v\<close> nw noall run ref p vr rv False
                  by (simp add: Iterate.simps lv)
                ultimately show ?thesis using first visits_added_trans by blast
              qed
            qed
          next
            case None
            define obj where "obj = (if strings_Contains (Type v) TYPE_OBJECT
                                 then Iterate_all n E sw log_visitor (map snd (Properties v)) False ?l1
                                 else Some (Ok (), ?l1))"
            have run': "(case obj of
                             None \<Rightarrow> None
                           | Some (Err e, context'') \<Rightarrow> Some (Err e, context'')
                           | Some (Panic m, context'') \<Rightarrow> Some (Panic m, context'')
                           | Some (Ok u, context'') \<Rightarrow>
                               if strings_Contains (Type v) TYPE_ARRAY then
                                 (case Items v of
                                    None \<Rightarrow> Some (Panic nil_dereference, context'')
                                  | Some itemSchema \<Rightarrow>
                                      Iterate n E sw log_visitor itemSchema False context'')
                               else Some (Ok (), context'')) = Some (res, l)"
              using \<open>deref sw s = Some v\<close> nw noall run ref p None
              by (simp add: Iterate.simps lv obj_def)
            then obtain o2 l2 where ob: "obj = Some (o2, l2)"
              by (cases obj) auto
            have s2: "visits_added E sw ?l1 l2"
            proof (cases "strings_Contains (Type v) TYPE_OBJECT")
              case True
              with ob have "Iterate_all n E sw log_visitor (map snd (Properties v)) False ?l1
                              = Some (o2, l2)" by (simp add: obj_def)
              then show ?thesis by (rule Iterate_all_visits[rotated]) (rule Suc.IH)
            next
              case False
              with ob show ?thesis by (simp add: obj_def visits_added_refl)
            qed
            have s02: "visits_added E sw l0 l2"
              using first s2 by (rule visits_added_trans)
            show ?thesis
            proof (cases o2)
              case (Err e)
              with run' ob s02 show ?thesis by simp
            next
              case (Panic m)
              with run' ob s02 show ?thesis by simp
            next
              case (Ok u)
              show ?thesis
              proof (cases "strings_Contains (Type v) TYPE_ARRAY")
                case False
                with run' ob Ok s02 show ?thesis by simp
              next
                case arr: True
                show ?thesis
                proof (cases "Items v")
                  case None
                  with run' ob Ok arr s02 show ?thesis by simp
                next
                  case (Some it)
                  with run' ob Ok arr have "Iterate n E sw log_visitor it False l2 = Some (res, l)"
                    by simp
                  then have "visits_added E sw l2 l" by (rule Suc.IH)
                  with s02 show ?thesis by (rule visits_added_trans)
                qed
              qed
            qed
          qed
        qed
      qed
    qed
  qed
qed

text \<open>
  How often a schema is visited. Under a rank that decreases along the descent, a traversal
  that calls the visitor at all calls it first on its root, under the empty name, and then
  only on schemas of lower rank or on referents.
\<close>

lemma visit_below_mono:
  "visit_below E sw rank a e \<Longrightarrow> a \<le> b \<Longrightarrow> visit_below E sw rank b e"
  by (auto simp: visit_below_def split: prod.splits)

lemma root_form_below:
  assumes "l = l0 \<or> (\<exists>rest. l = l0 @ ([], c) # rest \<and> list_all (visit_below E sw rank (rank c)) rest)"
    and "rank c < b"
  shows "\<exists>new. l = l0 @ new \<and> list_all (visit_below E sw rank b) new"
proof -
  from assms(1) consider "l = l0"
    | rest where "l = l0 @ ([], c) # rest" "list_all (visit_below E sw rank (rank c)) rest"
    by blast
  then show ?thesis
  proof cases
    case 1
    then show ?thesis by simp
  next
    case 2
    have "visit_below E sw rank b ([], c)"
      using assms(2) by (simp add: visit_below_def)
    moreover have "list_all (visit_below E sw rank b) rest"
      using 2(2) assms(2) visit_below_mono[of E sw rank "rank c" _ b]
      by (auto simp: list_all_iff)
    ultimately have "l = l0 @ (([], c) # rest) \<and> list_all (visit_below E sw rank b) (([], c) # rest)"
      using 2(1) by simp
    then show ?thesis by (rule exI)
  qed
qed

lemma Iterate_all_below:
  assumes node: "\<And>c l0 res l. c \<in> set cs \<Longrightarrow> Iterate n E sw log_visitor c False l0 = Some (res, l)
             \<Longrightarrow> l = l0 \<or> (\<exists>rest. l = l0 @ ([], c) # rest \<and>
                                list_all (visit_below E sw rank (rank c)) rest)"
    and small: "\<And>c. c \<in> set cs \<Longrightarrow> rank c < b"
  shows "Iterate_all n E sw log_visitor cs False l1 = Some (res, l)
           \<Longrightarrow> \<exists>new. l = l1 @ new \<and> list_all (visit_below E sw rank b) new"
  using node small
proof (induction cs arbitrary: l1)
  case Nil
  then show ?case by simp
next
  case (Cons c cs)
  note run = Cons.prems(1)
  have "Iterate n E sw log_visitor c False l1 \<noteq> None"
  proof
    assume "Iterate n E sw log_visitor c False l1 = None"
    with run show False by simp
  qed
  then obtain o1 l2 where r: "Iterate n E sw log_visitor c False l1 = Some (o1, l2)"
    by (cases "Iterate n E sw log_visitor c False l1") auto
  have f1: "l2 = l1 \<or> (\<exists>rest. l2 = l1 @ ([], c) # rest \<and>
                                list_all (visit_below E sw rank (rank c)) rest)"
    by (rule Cons.prems(2)[OF _ r]) simp
  have f2: "rank c < b" by (rule Cons.prems(3)) simp
  from root_form_below[OF f1 f2]
  obtain new1 where n1: "l2 = l1 @ new1" "list_all (visit_below E sw rank b) new1"
    by (elim exE conjE)
  show ?case
  proof (cases o1)
    case (Ok u)
    with run r have "Iterate_all n E sw log_visitor cs False l2 = Some (res, l)"
      by simp
    then have "\<exists>new. l = l2 @ new \<and> list_all (visit_below E sw rank b) new"
    proof (rule Cons.IH)
      fix c' l0' res' l'
      assume "c' \<in> set cs" and "Iterate n E sw log_visitor c' False l0' = Some (res', l')"
      then show "l' = l0' \<or> (\<exists>rest. l' = l0' @ ([], c') # rest \<and>
                                list_all (visit_below E sw rank (rank c')) rest)"
        using Cons.prems(2)[of c' l0' res' l'] by simp
    next
      fix c' assume "c' \<in> set cs"
      then show "rank c' < b" using Cons.prems(3)[of c'] by simp
    qed
    then obtain new2 where "l = l2 @ new2" "list_all (visit_below E sw rank b) new2"
      by (elim exE conjE)
    with n1 have "l = l1 @ (new1 @ new2) \<and> list_all (visit_below E sw rank b) (new1 @ new2)"
      by simp
    then show ?thesis by (rule exI)
  next
    case (Err e)
    with run r have "l = l2" by simp
    with n1 have "l = l1 @ new1 \<and> list_all (visit_below E sw rank b) new1" by simp
    then show ?thesis by (rule exI)
  next
    case (Panic m)
    with run r have "l = l2" by simp
    with n1 have "l = l1 @ new1 \<and> list_all (visit_below E sw rank b) new1" by simp
    then show ?thesis by (rule exI)
  qed
qed

lemma Iterate_root_form:
  assumes rank: "\<And>x c. c \<in> set (Iterate_children E sw x) \<Longrightarrow> rank c < rank x"
  shows "Iterate m E sw log_visitor s False l0 = Some (res, l) \<Longrightarrow>
         l = l0 \<or> (\<exists>rest. l = l0 @ ([], s) # rest \<and> list_all (visit_below E sw rank (rank s)) rest)"
proof (induction m arbitrary: s l0 res l)
  case 0
  then show ?case by (simp add: Iterate.simps)
next
  case (Suc n)
  note run = Suc.prems
  let ?l1 = "l0 @ [([], s)]"
  have lv: "log_visitor [] s l0 = (Ok (), ?l1)"
    by (simp add: log_visitor_def)
  have kids: "\<exists>new. l' = l1 @ new \<and> list_all (visit_below E sw rank (rank s)) new"
    if sub: "set cs \<subseteq> set (Iterate_children E sw s)"
      and it: "Iterate_all n E sw log_visitor cs False l1 = Some (res', l')" for cs l1 res' l'
    using _ _ it
  proof (rule Iterate_all_below)
    fix c l0' res'' l''
    assume "c \<in> set cs" and "Iterate n E sw log_visitor c False l0' = Some (res'', l'')"
    then show "l'' = l0' \<or> (\<exists>rest. l'' = l0' @ ([], c) # rest \<and>
                                list_all (visit_below E sw rank (rank c)) rest)"
      using Suc.IH by blast
  next
    fix c assume "c \<in> set cs"
    with sub have "c \<in> set (Iterate_children E sw s)" by blast
    then show "rank c < rank s" by (rule rank)
  qed
  have finish: ?case if "\<exists>new. l = ?l1 @ new \<and> list_all (visit_below E sw rank (rank s)) new"
  proof -
    from that obtain new where "l = ?l1 @ new" "list_all (visit_below E sw rank (rank s)) new"
      by (elim exE conjE)
    then have "l = l0 @ ([], s) # new \<and> list_all (visit_below E sw rank (rank s)) new" by simp
    then have "\<exists>rest. l = l0 @ ([], s) # rest \<and> list_all (visit_below E sw rank (rank s)) rest"
      by (rule exI)
    then show ?thesis by (rule disjI2)
  qed
  show ?case
  proof (cases "deref sw s")
    case None
    with run show ?thesis by (simp add: Iterate.simps)
  next
    case (Some v)
    show ?thesis
    proof (cases "tagged_Weak E v")
      case True
      with Some run show ?thesis by (simp add: Iterate.simps)
    next
      case nw: False
      show ?thesis
      proof (cases "length (AllOf v) > 0")
        case True
        have ch: "Iterate_children E sw s = AllOf v"
          using Some nw True by (simp add: Iterate_children_def)
        from Some nw run True
        have "Iterate_all n E sw log_visitor (AllOf v) False ?l1 = Some (res, l)"
          by (simp add: Iterate.simps lv)
        then have "\<exists>new. l = ?l1 @ new \<and> list_all (visit_below E sw rank (rank s)) new"
          by (rule kids[rotated]) (simp add: ch)
        then show ?thesis by (rule finish)
      next
        case noall: False
        show ?thesis
        proof (cases "GetReferredSchema sw s")
          case (Err e)
          with Some nw noall run have "l = ?l1 @ []" by (simp add: Iterate.simps lv)
          then have "\<exists>new. l = ?l1 @ new \<and> list_all (visit_below E sw rank (rank s)) new"
            by (intro exI[of _ "[]"]) simp
          then show ?thesis by (rule finish)
        next
          case (Panic m)
          with Some nw noall run have "l = ?l1 @ []" by (simp add: Iterate.simps lv)
          then have "\<exists>new. l = ?l1 @ new \<and> list_all (visit_below E sw rank (rank s)) new"
            by (intro exI[of _ "[]"]) simp
          then show ?thesis by (rule finish)
        next
          case ref: (Ok p)
          obtain nm r where p: "p = (nm, r)" by (cases p)
          show ?thesis
          proof (cases "Value r")
            case vr: (Some a)
            show ?thesis
            proof (cases "deref sw r")
              case None
              with \<open>deref sw s = Some v\<close> nw noall run ref p vr
              have "l = ?l1 @ []" by (simp add: Iterate.simps lv)
              then have "\<exists>new. l = ?l1 @ new \<and> list_all (visit_below E sw rank (rank s)) new"
                by (intro exI[of _ "[]"]) simp
              then show ?thesis by (rule finish)
            next
              case rv: (Some rv)
              show ?thesis
              proof (cases "tagged_Weak E rv")
                case True
                with \<open>deref sw s = Some v\<close> nw noall run ref p vr rv
                have "l = ?l1 @ []" by (simp add: Iterate.simps lv)
                then have "\<exists>new. l = ?l1 @ new \<and> list_all (visit_below E sw rank (rank s)) new"
                  by (intro exI[of _ "[]"]) simp
                then show ?thesis by (rule finish)
              next
                case False
                have "reference_visit E sw nm r"
                  unfolding reference_visit_def
                  using \<open>deref sw s = Some v\<close> nw ref p by blast
                then have vb: "visit_below E sw rank (rank s) (nm, r)"
                  by (simp add: visit_below_def)
                have "log_visitor nm r ?l1 = (Ok (), ?l1 @ [(nm, r)])"
                  by (simp add: log_visitor_def)
                then have "l = ?l1 @ [(nm, r)]"
                  using \<open>deref sw s = Some v\<close> nw noall run ref p vr rv False
                  by (simp add: Iterate.simps lv)
                with vb have "\<exists>new. l = ?l1 @ new \<and> list_all (visit_below E sw rank (rank s)) new"
                  by (intro exI[of _ "[(nm, r)]"]) simp
                then show ?thesis by (rule finish)
              qed
            qed
          next
            case None
            define props where
              "props = (if strings_Contains (Type v) TYPE_OBJECT then map snd (Properties v) else [])"
            define items where
              "items = (if strings_Contains (Type v) TYPE_ARRAY
                        then (case Items v of None \<Rightarrow> [] | Some itemSchema \<Rightarrow> [itemSchema])
                        else [])"
            have ch: "Iterate_children E sw s = props @ items"
              using \<open>deref sw s = Some v\<close> nw noall ref p None
              by (simp add: Iterate_children_def props_def items_def)
            define obj where "obj = (if strings_Contains (Type v) TYPE_OBJECT
                                 then Iterate_all n E sw log_visitor (map snd (Properties v)) False ?l1
                                 else Some (Ok (), ?l1))"
            have run': "(case obj of
                             None \<Rightarrow> None
                           | Some (Err e, context'') \<Rightarrow> Some (Err e, context'')
                           | Some (Panic m, context'') \<Rightarrow> Some (Panic m, context'')
                           | Some (Ok u, context'') \<Rightarrow>
                               if strings_Contains (Type v) TYPE_ARRAY then
                                 (case Items v of
                                    None \<Rightarrow> Some (Panic nil_dereference, context'')
                                  | Some itemSchema \<Rightarrow>
                                      Iterate n E sw log_visitor itemSchema False context'')
                               else Some (Ok (), context'')) = Some (res, l)"
              using \<open>deref sw s = Some v\<close> nw noall run ref p None
              by (simp add: Iterate.simps lv obj_def)
            then obtain o2 l2 where ob: "obj = Some (o2, l2)"
              by (cases obj) auto
            have s2: "\<exists>new. l2 = ?l1 @ new \<and> list_all (visit_below E sw rank (rank s)) new"
            proof (cases "strings_Contains (Type v) TYPE_OBJECT")
              case True
              with ob have "Iterate_all n E sw log_visitor props False ?l1 = Some (o2, l2)"
                by (simp add: obj_def props_def)
              then show ?thesis by (rule kids[rotated]) (simp add: ch)
            next
              case False
              with ob have "l2 = ?l1 @ []" by (simp add: obj_def)
              then show ?thesis by (intro exI[of _ "[]"]) simp
            qed
            then obtain new2 where n2: "l2 = ?l1 @ new2"
              "list_all (visit_below E sw rank (rank s)) new2" by (elim exE conjE)
            have same: ?thesis if "l = l2"
              by (rule finish) (use that s2 in simp)
            show ?thesis
            proof (cases o2)
              case (Err e)
              with run' ob have "l = l2" by simp
              then show ?thesis by (rule same)
            next
              case (Panic m)
              with run' ob have "l = l2" by simp
              then show ?thesis by (rule same)
            next
              case (Ok u)
              show ?thesis
              proof (cases "strings_Contains (Type v) TYPE_ARRAY")
                case False
                with run' ob Ok have "l = l2" by simp
                then show ?thesis by (rule same)
              next
                case arr: True
                show ?thesis
                proof (cases "Items v")
                  case None
                  with run' ob Ok arr have "l = l2" by simp
                  then show ?thesis by (rule same)
                next
                  case (Some it)
                  with run' ob Ok arr have ri: "Iterate n E sw log_visitor it False l2 = Some (res, l)"
                    by simp
                  have "it \<in> set items" using arr Some by (simp add: items_def)
                  then have "it \<in> set (Iterate_children E sw s)" by (simp add: ch)
                  then have small: "rank it < rank s" by (rule rank)
                  have "l = l2 \<or> (\<exists>rest. l = l2 @ ([], it) # rest \<and>
                                list_all (visit_below E sw rank (rank it)) rest)"
                    using ri by (rule Suc.IH)
                  from root_form_below[OF this small]
                  obtain new3 where "l = l2 @ new3" "list_all (visit_below E sw rank (rank s)) new3"
                    by (elim exE conjE)
                  with n2 have "l = ?l1 @ (new2 @ new3) \<and>
                      list_all (visit_below E sw rank (rank s)) (new2 @ new3)" by simp
                  then have "\<exists>new. l = ?l1 @ new \<and> list_all (visit_below E sw rank (rank s)) new"
                    by (rule exI)
                  then show ?thesis by (rule finish)
                qed
              qed
            qed
          qed
        qed
      qed
    qed
  qed
qed

lemma Iterate_root_once:
  fixes rank :: "SchemaRef \<Rightarrow> nat"
  assumes rank: "\<And>x c. c \<in> set (Iterate_children E sw x) \<Longrightarrow> rank c < rank x"
    and weak: "\<And>x nm w. GetReferredSchema sw x = Ok (nm, s) \<Longrightarrow> deref sw x = Some w
                 \<Longrightarrow> tagged_Weak E w"
    and run: "Iterate m E sw log_visitor s False l0 = Some (res, l)"
  shows "\<exists>new. l = l0 @ new \<and> length (filter (\<lambda>(schemaName, schema). schema = s) new) \<le> 1"
proof -
  from Iterate_root_form[of E sw rank m s l0 res l, OF rank run]
  consider "l = l0"
    | rest where "l = l0 @ ([], s) # rest" "list_all (visit_below E sw rank (rank s)) rest"
    by blast
  then show ?thesis
  proof cases
    case 1
    then have "l = l0 @ [] \<and> length (filter (\<lambda>(schemaName, schema). schema = s) []) \<le> 1"
      by simp
    then show ?thesis by (rule exI)
  next
    case 2
    have "schema \<noteq> s" if "(nm, schema) \<in> set rest" for nm schema
    proof
      assume eq: "schema = s"
      from 2(2) that have "visit_below E sw rank (rank s) (nm, schema)"
        by (simp add: list_all_iff)
      with eq have "reference_visit E sw nm s"
        by (simp add: visit_below_def)
      then obtain x w where "deref sw x = Some w" "\<not> tagged_Weak E w"
        "GetReferredSchema sw x = Ok (nm, s)"
        unfolding reference_visit_def by blast
      with weak show False by blast
    qed
    then have "filter (\<lambda>(schemaName, schema). schema = s) rest = []"
      by (auto simp: filter_empty_conv)
    then have "l = l0 @ (([], s) # rest) \<and>
        length (filter (\<lambda>(schemaName, schema). schema = s) (([], s) # rest)) \<le> 1"
      using 2(1) by simp
    then show ?thesis by (rule exI)
  qed
qed

text \<open>The traversal of the graph of \<open>Pet\<close>, step by step.\<close>

lemmas pet_defs = deref_def pet_swagger_def pet_store_def pet_root_def pet_member_def
  pet_name_def pet_friend_def tagged_Weak_def example_env_def empty_Schema_def
  weak_description_def no_reference_def TYPE_OBJECT_def TYPE_ARRAY_def

lemma pet_friend_skipped:
  "Iterate (Suc 0) example_env pet_swagger f pet_friend False ctx = Some (Ok (), ctx)"
  by (simp add: Iterate.simps pet_defs)

lemma pet_name_visit:
  "Iterate (Suc 0) example_env pet_swagger log_visitor pet_name False l = Some (Ok (), l @ [([], pet_name)])"
  by (simp add: Iterate.simps pet_defs log_visitor_def[of "[]" _ l])

lemma pet_props_visit:
  "Iterate_all (Suc 0) example_env pet_swagger log_visitor [pet_name, pet_friend] False l
     = Some (Ok (), l @ [([], pet_name)])"
  by (simp add: pet_name_visit pet_friend_skipped)

lemma pet_member_visit:
  "Iterate (Suc (Suc 0)) example_env pet_swagger log_visitor pet_member False l
     = Some (Ok (), l @ [([], pet_member), ([], pet_name)])"
proof -
  define v where "v = empty_Schema\<lparr>Type := ''object'',
                              Properties := [(''name'', pet_name), (''friend'', pet_friend)]\<rparr>"
  have d: "deref pet_swagger pet_member = Some v"
    by (simp add: deref_def pet_swagger_def pet_store_def pet_member_def v_def)
  have w: "\<not> tagged_Weak example_env v"
    by (simp add: tagged_Weak_def example_env_def empty_Schema_def weak_description_def v_def)
  have f: "AllOf v = []" "Type v = ''object''"
    "Properties v = [(''name'', pet_name), (''friend'', pet_friend)]"
    by (simp_all add: v_def empty_Schema_def)
  have r: "GetReferredSchema pet_swagger pet_member = Ok ([], no_reference)"
    by (simp add: pet_swagger_def pet_member_def pet_friend_def)
  show ?thesis
    by (subst Iterate.simps)
       (simp add: d w f r log_visitor_def[of "[]" pet_member l] no_reference_def
          pet_name_visit pet_friend_skipped TYPE_OBJECT_def TYPE_ARRAY_def)
qed

lemma pet_root_visit:
  "Iterate (Suc (Suc (Suc 0))) example_env pet_swagger log_visitor pet_root False []
     = Some (Ok (), [([], pet_root), ([], pet_member), ([], pet_name)])"
proof -
  define v where "v = empty_Schema\<lparr>AllOf := [pet_member]\<rparr>"
  have d: "deref pet_swagger pet_root = Some v"
    by (simp add: deref_def pet_swagger_def pet_store_def pet_root_def v_def)
  have w: "\<not> tagged_Weak example_env v"
    by (simp add: tagged_Weak_def example_env_def empty_Schema_def weak_description_def v_def)
  have f: "AllOf v = [pet_member]"
    by (simp add: v_def)
  show ?thesis
    by (subst Iterate.simps)
       (simp add: d w f log_visitor_def[of "[]" pet_root "[]"] pet_member_visit)
qed

lemma pet_rank_decreases:
  "list_all (\<lambda>c. pet_rank c < pet_rank x) (Iterate_children example_env pet_swagger x)"
proof (cases "Value x")
  case None
  then show ?thesis by (simp add: Iterate_children_def deref_def)
next
  case (Some a)
  consider "a = 0" | "a = 1" | "a = 2" | "a = 3" | "a > 3" by linarith
  then show ?thesis
  proof cases
    case 1
    with Some show ?thesis by (simp add: Iterate_children_def pet_defs pet_rank_def)
  next
    case 2
    with Some show ?thesis by (simp add: Iterate_children_def pet_defs pet_rank_def)
  next
    case 3
    with Some show ?thesis by (simp add: Iterate_children_def pet_defs pet_rank_def)
  next
    case 4
    with Some show ?thesis by (simp add: Iterate_children_def pet_defs pet_rank_def)
  next
    case 5
    with Some show ?thesis by (simp add: Iterate_children_def pet_defs pet_rank_def)
  qed
qed

lemma pet_references_weak:
  "GetReferredSchema pet_swagger x = Ok (''Pet'', r) \<and> deref pet_swagger x = Some v
     \<longrightarrow> tagged_Weak example_env v"
  by (auto simp: pet_defs split: if_splits)

lemma pet_root_references_weak:
  "GetReferredSchema pet_swagger x = Ok (nm, pet_root) \<and> deref pet_swagger x = Some v
     \<longrightarrow> tagged_Weak example_env v"
  by (auto simp: pet_defs split: if_splits)

text \<open>
  Claim C4 (weak-edge skip). With \<open>followWeak = false\<close>:
  \<^item> on a schema tagged Weak, \<open>Iterate\<close> returns success at once, whatever the visitor, and
    hands back the context as it was: the visitor is not invoked;
  \<^item> \<open>Iterate\<close> returns whenever the schemas it descends into from schemas not tagged Weak
    decrease in some rank, that is, whenever every cycle of the graph passes through a
    schema tagged Weak;
  \<^item> the visitor is invoked only on schemas that are not tagged Weak, and under a name
    only for what a schema not tagged Weak refers to;
  \<^item> so if every schema that refers to the name \<open>N\<close> is tagged Weak, the schema is never
    visited under the name \<open>N\<close>;
  \<^item> on a graph whose descent decreases in rank and in which every schema that refers to
    the schema \<open>s\<close> is tagged Weak (the self-reference is tagged Weak), \<open>Iterate\<close> from \<open>s\<close>
    returns, and the visitor is called on \<open>s\<close> at most once, under whatever name: the log
    of the visits gains at most one entry whose schema is \<open>s\<close>;
  \<^item> the same bound holds of every run from \<open>s\<close> that returns, whatever the call depth
    it was given.
\<close>

theorem Iterate_weak_skip:
  "(deref sw s = Some v \<and> tagged_Weak E v \<longrightarrow>
      Iterate (Suc n) E sw f s False ctx = Some (Ok (), ctx))
   \<and> ((\<forall>x. list_all (\<lambda>c. rank c < rank x) (Iterate_children E sw x)) \<longrightarrow>
      (\<exists>res. Iterate (Suc (rank s)) E sw f s False ctx = Some res))
   \<and> (Iterate m E sw log_visitor s False log0 = Some (res, log1) \<longrightarrow>
      visits_added E sw log0 log1)
   \<and> (Iterate m E sw log_visitor s False log0 = Some (res, log1) \<and> N \<noteq> [] \<and>
      (\<forall>x w r. GetReferredSchema sw x = Ok (N, r) \<and> deref sw x = Some w \<longrightarrow> tagged_Weak E w)
      \<longrightarrow> (\<exists>new. log1 = log0 @ new \<and> list_all (\<lambda>(schemaName, schema). schemaName \<noteq> N) new))
   \<and> ((\<forall>x. list_all (\<lambda>c. rank c < rank x) (Iterate_children E sw x)) \<and>
      (\<forall>x nm w. GetReferredSchema sw x = Ok (nm, s) \<and> deref sw x = Some w \<longrightarrow> tagged_Weak E w)
      \<longrightarrow> (\<exists>r new. Iterate (Suc (rank s)) E sw log_visitor s False log0 = Some (r, log0 @ new) \<and>
                   length (filter (\<lambda>(schemaName, schema). schema = s) new) \<le> 1))
   \<and> ((\<forall>x. list_all (\<lambda>c. rank c < rank x) (Iterate_children E sw x)) \<and>
      (\<forall>x nm w. GetReferredSchema sw x = Ok (nm, s) \<and> deref sw x = Some w \<longrightarrow> tagged_Weak E w) \<and>
      Iterate m E sw log_visitor s False log0 = Some (res, log1)
      \<longrightarrow> (\<exists>new. log1 = log0 @ new \<and>
                 length (filter (\<lambda>(schemaName, schema). schema = s) new) \<le> 1))"
proof (intro conjI impI)
  assume "deref sw s = Some v \<and> tagged_Weak E v"
  then show "Iterate (Suc n) E sw f s False ctx = Some (Ok (), ctx)"
    by (simp add: Iterate.simps)
next
  assume "\<forall>x. list_all (\<lambda>c. rank c < rank x) (Iterate_children E sw x)"
  then have r: "\<And>x c. c \<in> set (Iterate_children E sw x) \<Longrightarrow> rank c < rank x"
    by (simp add: list_all_iff)
  have "rank s < Suc (rank s)" by simp
  with r show "\<exists>res. Iterate (Suc (rank s)) E sw f s False ctx = Some res"
    by (rule Iterate_returns)
next
  assume "Iterate m E sw log_visitor s False log0 = Some (res, log1)"
  then show "visits_added E sw log0 log1" by (rule Iterate_visits)
next
  assume a: "Iterate m E sw log_visitor s False log0 = Some (res, log1) \<and> N \<noteq> [] \<and>
      (\<forall>x w r. GetReferredSchema sw x = Ok (N, r) \<and> deref sw x = Some w \<longrightarrow> tagged_Weak E w)"
  then have "Iterate m E sw log_visitor s False log0 = Some (res, log1)" by simp
  then have "visits_added E sw log0 log1" by (rule Iterate_visits)
  then obtain new where new: "log1 = log0 @ new"
    and ok: "list_all (\<lambda>(schemaName, schema). visit_allowed E sw schemaName schema) new"
    unfolding visits_added_def by blast
  have "schemaName \<noteq> N" if "(schemaName, schema) \<in> set new" for schemaName schema
  proof
    assume eq: "schemaName = N"
    from ok that have "visit_allowed E sw schemaName schema"
      by (auto simp: list_all_iff)
    with eq a obtain x w where "deref sw x = Some w" "\<not> tagged_Weak E w"
      "GetReferredSchema sw x = Ok (N, schema)"
      unfolding visit_allowed_def by blast
    with a show False by blast
  qed
  then have "list_all (\<lambda>(schemaName, schema). schemaName \<noteq> N) new"
    by (auto simp: list_all_iff)
  with new show "\<exists>new. log1 = log0 @ new \<and> list_all (\<lambda>(schemaName, schema). schemaName \<noteq> N) new"
    by blast
next
  assume a: "(\<forall>x. list_all (\<lambda>c. rank c < rank x) (Iterate_children E sw x)) \<and>
      (\<forall>x nm w. GetReferredSchema sw x = Ok (nm, s) \<and> deref sw x = Some w \<longrightarrow> tagged_Weak E w)"
  then have r: "\<And>x c. c \<in> set (Iterate_children E sw x) \<Longrightarrow> rank c < rank x"
    by (simp add: list_all_iff)
  from a have w: "\<And>x nm w. GetReferredSchema sw x = Ok (nm, s) \<Longrightarrow> deref sw x = Some w
                    \<Longrightarrow> tagged_Weak E w"
    by blast
  have "rank s < Suc (rank s)" by simp
  with r have "\<exists>out. Iterate (Suc (rank s)) E sw log_visitor s False log0 = Some out"
    by (rule Iterate_returns)
  then obtain r' l' where run: "Iterate (Suc (rank s)) E sw log_visitor s False log0 = Some (r', l')"
    by (elim exE) (metis surj_pair)
  from r w run
  have "\<exists>new. l' = log0 @ new \<and> length (filter (\<lambda>(schemaName, schema). schema = s) new) \<le> 1"
    by (rule Iterate_root_once)
  then obtain new where "l' = log0 @ new"
    "length (filter (\<lambda>(schemaName, schema). schema = s) new) \<le> 1"
    by (elim exE conjE)
  with run have "Iterate (Suc (rank s)) E sw log_visitor s False log0 = Some (r', log0 @ new) \<and>
      length (filter (\<lambda>(schemaName, schema). schema = s) new) \<le> 1" by simp
  then show "\<exists>r new. Iterate (Suc (rank s)) E sw log_visitor s False log0 = Some (r, log0 @ new) \<and>
      length (filter (\<lambda>(schemaName, schema). schema = s) new) \<le> 1"
    by (intro exI)
next
  assume a: "(\<forall>x. list_all (\<lambda>c. rank c < rank x) (Iterate_children E sw x)) \<and>
      (\<forall>x nm w. GetReferredSchema sw x = Ok (nm, s) \<and> deref sw x = Some w \<longrightarrow> tagged_Weak E w) \<and>
      Iterate m E sw log_visitor s False log0 = Some (res, log1)"
  then have r: "\<And>x c. c \<in> set (Iterate_children E sw x) \<Longrightarrow> rank c < rank x"
    by (simp add: list_all_iff)
  from a have w: "\<And>x nm w. GetReferredSchema sw x = Ok (nm, s) \<Longrightarrow> deref sw x = Some w
                    \<Longrightarrow> tagged_Weak E w"
    by blast
  from a have run: "Iterate m E sw log_visitor s False log0 = Some (res, log1)" by simp
  from r w run
  show "\<exists>new. log1 = log0 @ new \<and> length (filter (\<lambda>(schemaName, schema). schema = s) new) \<le> 1"
    by (rule Iterate_root_once)
qed

theorem Iterate_weak_skip_witness:
  "deref pet_swagger pet_friend
     = Some (empty_Schema\<lparr>Description := weak_description, AllOf := [pet_member]\<rparr>) \<and>
   tagged_Weak example_env (empty_Schema\<lparr>Description := weak_description, AllOf := [pet_member]\<rparr>) \<and>
   Iterate (Suc 0) example_env pet_swagger log_visitor pet_friend False [] = Some (Ok (), []) \<and>
   (\<forall>x. list_all (\<lambda>c. pet_rank c < pet_rank x) (Iterate_children example_env pet_swagger x)) \<and>
   (\<exists>res. Iterate (Suc (pet_rank pet_root)) example_env pet_swagger log_visitor pet_root False []
            = Some res) \<and>
   Iterate (Suc (Suc (Suc 0))) example_env pet_swagger log_visitor pet_root False []
     = Some (Ok (), [([], pet_root), ([], pet_member), ([], pet_name)]) \<and>
   visits_added example_env pet_swagger [] [([], pet_root), ([], pet_member), ([], pet_name)] \<and>
   (\<exists>new. [([], pet_root), ([], pet_member), ([], pet_name)] = [] @ new \<and>
          list_all (\<lambda>(schemaName, schema). schemaName \<noteq> ''Pet'') new) \<and>
   GetReferredSchema pet_swagger pet_friend = Ok (''Pet'', pet_root) \<and>
   (\<exists>r new. Iterate (Suc (pet_rank pet_root)) example_env pet_swagger log_visitor pet_root False []
                = Some (r, [] @ new) \<and>
            length (filter (\<lambda>(schemaName, schema). schema = pet_root) new) \<le> 1) \<and>
   (\<exists>new. [([] :: string, pet_root), ([], pet_member), ([], pet_name)] = [] @ new \<and>
          length (filter (\<lambda>(schemaName, schema). schema = pet_root) new) \<le> 1)"
proof -
  let ?v = "empty_Schema\<lparr>Description := weak_description, AllOf := [pet_member]\<rparr>"
  let ?log = "[([] :: string, pet_root), ([], pet_member), ([], pet_name)]"
  note at_friend = Iterate_weak_skip[of pet_swagger pet_friend "?v" example_env 0 log_visitor "[]"
      pet_rank "Suc (Suc (Suc 0))" "[]" "Ok ()" "?log" "''Pet''"]
  have d: "deref pet_swagger pet_friend = Some ?v"
    by (simp add: deref_def pet_swagger_def pet_store_def pet_friend_def)
  have w: "tagged_Weak example_env ?v"
    by (simp add: tagged_Weak_def example_env_def empty_Schema_def weak_description_def)
  have skip: "Iterate (Suc 0) example_env pet_swagger log_visitor pet_friend False [] = Some (Ok (), [])"
    using at_friend d w by blast
  have rk: "\<forall>x. list_all (\<lambda>c. pet_rank c < pet_rank x) (Iterate_children example_env pet_swagger x)"
    by (simp add: pet_rank_decreases)
  have run: "Iterate (Suc (Suc (Suc 0))) example_env pet_swagger log_visitor pet_root False []
               = Some (Ok (), ?log)"
    by (rule pet_root_visit)
  have refs: "\<forall>x w r. GetReferredSchema pet_swagger x = Ok (''Pet'', r) \<and> deref pet_swagger x = Some w
                \<longrightarrow> tagged_Weak example_env w"
    using pet_references_weak by blast
  note at_root = Iterate_weak_skip[of pet_swagger pet_root "?v" example_env 0 log_visitor "[]"
      pet_rank "Suc (Suc (Suc 0))" "[]" "Ok ()" "?log" "''Pet''"]
  have ret: "\<exists>res. Iterate (Suc (pet_rank pet_root)) example_env pet_swagger log_visitor pet_root
               False [] = Some res"
    using at_root rk by blast
  have vis: "visits_added example_env pet_swagger [] ?log"
    using at_root run by blast
  have nm: "\<exists>new. ?log = [] @ new \<and> list_all (\<lambda>(schemaName, schema). schemaName \<noteq> ''Pet'') new"
    using at_root run refs by blast
  have self: "GetReferredSchema pet_swagger pet_friend = Ok (''Pet'', pet_root)"
    by (simp add: pet_swagger_def)
  have refs_root: "\<forall>x nm w. GetReferredSchema pet_swagger x = Ok (nm, pet_root) \<and>
                     deref pet_swagger x = Some w \<longrightarrow> tagged_Weak example_env w"
    using pet_root_references_weak by blast
  from rk refs_root
  have hyp5: "(\<forall>x. list_all (\<lambda>c. pet_rank c < pet_rank x) (Iterate_children example_env pet_swagger x)) \<and>
     (\<forall>x nm w. GetReferredSchema pet_swagger x = Ok (nm, pet_root) \<and> deref pet_swagger x = Some w
        \<longrightarrow> tagged_Weak example_env w)"
    by (rule conjI)
  have once: "\<exists>r new. Iterate (Suc (pet_rank pet_root)) example_env pet_swagger log_visitor pet_root
                  False [] = Some (r, [] @ new) \<and>
                length (filter (\<lambda>(schemaName, schema). schema = pet_root) new) \<le> 1"
    by (rule mp[OF conjunct1[OF conjunct2[OF conjunct2[OF conjunct2[OF conjunct2[OF at_root]]]]] hyp5])
  from rk refs_root run
  have hyp6: "(\<forall>x. list_all (\<lambda>c. pet_rank c < pet_rank x) (Iterate_children example_env pet_swagger x)) \<and>
     (\<forall>x nm w. GetReferredSchema pet_swagger x = Ok (nm, pet_root) \<and> deref pet_swagger x = Some w
        \<longrightarrow> tagged_Weak example_env w) \<and>
     Iterate (Suc (Suc (Suc 0))) example_env pet_swagger log_visitor pet_root False [] = Some (Ok (), ?log)"
    by (intro conjI)
  have bound: "\<exists>new. ?log = [] @ new \<and>
                 length (filter (\<lambda>(schemaName, schema). schema = pet_root) new) \<le> 1"
    by (rule mp[OF conjunct2[OF conjunct2[OF conjunct2[OF conjunct2[OF conjunct2[OF at_root]]]]] hyp6])
  from d w skip rk ret run vis nm self once bound show ?thesis by (intro conjI)
qed

section \<open>Properties of parsing objects against schemas\<close>

lemma missing_required_None:
  "missing_required required objMap = None \<longleftrightarrow> list_all (\<lambda>r. map_of objMap r \<noteq> None) required"
  by (auto simp add: missing_required_def find_None_iff list_all_iff)

lemma Parses_fields_all:
  assumes "\<And>p x ps coll. (p, x) \<in> set es \<Longrightarrow> map_of props p = Some ps \<Longrightarrow>
             \<exists>coll'. Parses n E sw [] ps x coll fr = Some (Ok (), coll')"
  shows "\<exists>coll'. Parses_fields n E sw props es count coll fr =
           Some (Ok (count + length (filter (\<lambda>(p, x). map_of props p \<noteq> None) es)), coll')"
  using assms
proof (induction es arbitrary: count coll)
  case Nil
  show ?case by simp
next
  case (Cons e es)
  obtain p x where e: "e = (p, x)" by (cases e)
  have rest: "\<exists>coll'. Parses_fields n E sw props es c coll0 fr =
           Some (Ok (c + length (filter (\<lambda>(p, x). map_of props p \<noteq> None) es)), coll')" for c coll0
    by (rule Cons.IH) (rule Cons.prems, simp_all)
  show ?case
  proof (cases "map_of props p")
    case None
    with e rest[of count coll] show ?thesis by simp
  next
    case (Some ps)
    from Cons.prems[of p x ps coll] e Some obtain c1 where
      c1: "Parses n E sw [] ps x coll fr = Some (Ok (), c1)" by auto
    from rest[of "count + 1" c1] e Some c1 show ?thesis by simp
  qed
qed

lemma Parses_AllOf_all:
  assumes "\<And>s. s \<in> set ms \<Longrightarrow> \<exists>p. GetProperties n sw s = Some (Ok p) \<and>
             (p \<noteq> [] \<longrightarrow> (\<forall>coll. \<exists>coll'. Parses n E sw [] s (VMap (recognized n sw objMap s)) coll fr
                                    = Some (Ok (), coll')))"
  shows "\<exists>coll'. Parses_AllOf n E sw ms objMap count coll fr =
           Some (Ok (count + sum_list (map (\<lambda>s. length (recognized n sw objMap s)) ms)), coll')"
  using assms
proof (induction ms arbitrary: count coll)
  case Nil
  show ?case by simp
next
  case (Cons s ms)
  have rest: "\<exists>coll'. Parses_AllOf n E sw ms objMap c coll0 fr =
           Some (Ok (c + sum_list (map (\<lambda>s. length (recognized n sw objMap s)) ms)), coll')"
    for c coll0
    by (rule Cons.IH) (rule Cons.prems, simp)
  from Cons.prems[of s] obtain p where p: "GetProperties n sw s = Some (Ok p)"
    and sub: "p \<noteq> [] \<Longrightarrow> \<exists>coll'. Parses n E sw [] s (VMap (recognized n sw objMap s)) coll fr
                                    = Some (Ok (), coll')"
    by auto
  have rec: "recognized n sw objMap s
               = List.map_filter (\<lambda>k. map_option (Pair k) (map_of objMap k)) (map fst p)"
    by (simp add: recognized_def p)
  show ?case
  proof (cases "p = []")
    case True
    then have "recognized n sw objMap s = []" by (simp add: rec map_filter_simps)
    with rest[of count coll] p True show ?thesis by simp
  next
    case False
    from sub[OF False] obtain c1 where
      c1: "Parses n E sw [] s (VMap (recognized n sw objMap s)) coll fr = Some (Ok (), c1)" by auto
    from rest[of "count + length (recognized n sw objMap s)" c1] p False c1 rec
    show ?thesis by (simp add: Let_def add.assoc)
  qed
qed

lemma Parses_object_threshold:
  assumes ref: "GetReferredSchema sw schema = Ok (refName, referred)" "Value referred = None"
    and d: "deref sw schema = Some v" "AllOf v = []"
    and req: "list_all (\<lambda>r. map_of objMap r \<noteq> None) (Required v)"
    and fields: "\<And>p x ps coll. (p, x) \<in> set objMap \<Longrightarrow> map_of (Properties v) p = Some ps \<Longrightarrow>
             \<exists>coll'. Parses n E sw [] ps x coll followRef = Some (Ok (), coll')"
  shows "(3 * length objMap \<le> 4 * length (filter (\<lambda>(p, x). map_of (Properties v) p \<noteq> None) objMap)
           \<longrightarrow> (\<exists>coll'. Parses (Suc n) E sw name schema (VMap objMap) coll followRef
                          = Some (Ok (), coll')))
       \<and> (4 * length (filter (\<lambda>(p, x). map_of (Properties v) p \<noteq> None) objMap) < 3 * length objMap
           \<longrightarrow> (\<exists>coll'. Parses (Suc n) E sw name schema (VMap objMap) coll followRef
                          = Some (Err (raiseError E sw schema (VMap objMap)
                                         ''too many mis-matched fields''), coll')))"
proof -
  let ?k = "length (filter (\<lambda>(p, x). map_of (Properties v) p \<noteq> None) objMap)"
  have "\<exists>coll'. Parses_fields n E sw (Properties v) objMap 0 coll followRef
                  = Some (Ok (0 + ?k), coll')"
  proof (rule Parses_fields_all)
    fix p x ps coll0
    assume "(p, x) \<in> set objMap" and "map_of (Properties v) p = Some ps"
    then show "\<exists>coll'. Parses n E sw [] ps x coll0 followRef = Some (Ok (), coll')"
      by (rule fields)
  qed
  then obtain c1 where loop: "Parses_fields n E sw (Properties v) objMap 0 coll followRef
                           = Some (Ok ?k, c1)" by auto
  have mr: "missing_required (Required v) objMap = None"
    using req by (simp add: missing_required_None)
  have unfold: "Parses (Suc n) E sw name schema (VMap objMap) coll followRef =
      (if ?k * 4 < length objMap * 3 then
         Some (Err (raiseError E sw schema (VMap objMap) ''too many mis-matched fields''), c1)
       else if length name > 0 then Some (Ok (), collect c1 name (VMap objMap))
       else Some (Ok (), c1))"
    by (subst Parses.simps) (simp add: ref d mr loop)
  show ?thesis
    by (simp add: unfold mult.commute)
qed

lemma Parses_composite_threshold:
  assumes ref: "GetReferredSchema sw schema = Ok (refName, referred)" "Value referred = None"
    and d: "deref sw schema = Some v" "AllOf v \<noteq> []"
    and members: "\<And>s. s \<in> set (AllOf v) \<Longrightarrow> \<exists>p. GetProperties n sw s = Some (Ok p) \<and>
             (p \<noteq> [] \<longrightarrow> (\<forall>coll. \<exists>coll'. Parses n E sw [] s (VMap (recognized n sw objMap s)) coll
                                      followRef = Some (Ok (), coll')))"
  shows "(3 * length objMap \<le> 4 * sum_list (map (\<lambda>s. length (recognized n sw objMap s)) (AllOf v))
           \<longrightarrow> (\<exists>coll'. Parses (Suc n) E sw name schema (VMap objMap) coll followRef
                          = Some (Ok (), coll')))
       \<and> (4 * sum_list (map (\<lambda>s. length (recognized n sw objMap s)) (AllOf v)) < 3 * length objMap
           \<longrightarrow> (\<exists>coll'. Parses (Suc n) E sw name schema (VMap objMap) coll followRef
                          = Some (Err (raiseError E sw schema (VMap objMap)
                                         ''too many mismatched fields''), coll')))"
proof -
  let ?c = "sum_list (map (\<lambda>s. length (recognized n sw objMap s)) (AllOf v))"
  from Parses_AllOf_all[of "AllOf v" n sw E objMap followRef 0 coll, OF members]
  obtain c1 where loop: "Parses_AllOf n E sw (AllOf v) objMap 0 coll followRef = Some (Ok ?c, c1)"
    by auto
  have unfold: "Parses (Suc n) E sw name schema (VMap objMap) coll followRef =
      (if ?c * 4 < length objMap * 3 then
         Some (Err (raiseError E sw schema (VMap objMap) ''too many mismatched fields''), c1)
       else if length name > 0 then Some (Ok (), collect c1 name (VMap objMap))
       else Some (Ok (), c1))"
    by (subst Parses.simps) (simp add: ref d loop)
  show ?thesis
    by (simp add: unfold mult.commute)
qed

text \<open>Parsing the example objects against \<open>Dog\<close>, \<open>StrictDog\<close>, \<open>Coat\<close> and \<open>ColoredDog\<close>.\<close>

lemma dog_deref:
  "deref dog_swagger dog_schema = Some Dog"
  "deref dog_swagger strict_schema = Some StrictDog"
  "deref dog_swagger colored_schema = Some ColoredDog"
  "deref dog_swagger coat_schema = Some Coat"
  "deref dog_swagger string_schema = Some (empty_Schema\<lparr>Type := ''string''\<rparr>)"
  "deref dog_swagger number_schema = Some (empty_Schema\<lparr>Type := ''number''\<rparr>)"
  by (simp_all add: deref_def dog_swagger_def dog_store_def dog_schema_def strict_schema_def
      colored_schema_def coat_schema_def string_schema_def number_schema_def)

lemma dog_refs:
  "GetReferredSchema dog_swagger dog_schema = Ok ([], no_reference)"
  "GetReferredSchema dog_swagger strict_schema = Ok ([], no_reference)"
  "GetReferredSchema dog_swagger colored_schema = Ok ([], no_reference)"
  "GetReferredSchema dog_swagger coat_schema = Ok ([], no_reference)"
  "GetReferredSchema dog_swagger string_schema = Ok ([], no_reference)"
  "GetReferredSchema dog_swagger number_schema = Ok ([], no_reference)"
  "Value no_reference = None"
  by (simp_all add: dog_swagger_def dog_schema_def strict_schema_def
      colored_schema_def coat_schema_def string_schema_def number_schema_def no_reference_def)

lemma string_parses:
  "Parses (Suc n) example_env dog_swagger [] string_schema (VString str) coll True = Some (Ok (), coll)"
  by (subst Parses.simps)
     (simp add: dog_refs dog_deref empty_Schema_def Parses_value_def Validate_def
        collect_tagged_def example_env_def TYPE_STRING_def TYPE_INTEGER_def TYPE_NUMBER_def)

lemma number_parses:
  "Parses (Suc n) example_env dog_swagger [] number_schema (VFloat x) coll True = Some (Ok (), coll)"
  by (subst Parses.simps)
     (simp add: dog_refs dog_deref empty_Schema_def Parses_value_def Validate_def Validate_bounds_def
        collect_tagged_def example_env_def TYPE_STRING_def TYPE_INTEGER_def TYPE_NUMBER_def)

lemma Dog_fields_parse:
  "(p, x) \<in> set dog4 \<union> set dog3 \<union> set dog1 \<Longrightarrow> map_of (Properties Dog) p = Some ps \<Longrightarrow>
   \<exists>coll'. Parses (Suc n) example_env dog_swagger [] ps x coll True = Some (Ok (), coll')"
  by (auto simp: dog4_def dog3_def dog1_def Dog_def string_parses number_parses)

lemma strict_missing:
  "Parses (Suc (Suc 0)) example_env dog_swagger [] strict_schema (VMap dog1) (\<lambda>key. []) True =
     Some (Err (raiseError example_env dog_swagger strict_schema (VMap dog1)
                  ''required field not present: id''), \<lambda>key. [])"
  by (subst Parses.simps)
     (simp add: dog_refs dog_deref StrictDog_def empty_Schema_def dog1_def missing_required_def)

lemma Dog_facts:
  "AllOf Dog = []" "Required Dog = []"
  "length (filter (\<lambda>(p, x). map_of (Properties Dog) p \<noteq> None) dog4) = 3"
  "length (filter (\<lambda>(p, x). map_of (Properties Dog) p \<noteq> None) dog3) = 2"
  "length dog4 = 4" "length dog3 = 3"
  by (simp_all add: Dog_def empty_Schema_def dog4_def dog3_def)

lemma Dog_fields_hyp:
  "\<forall>(p, x) \<in> set dog4 \<union> set dog3. \<forall>ps coll. map_of (Properties Dog) p = Some ps \<longrightarrow>
     (\<exists>coll'. Parses (Suc n) example_env dog_swagger [] ps x coll True = Some (Ok (), coll'))"
  using Dog_fields_parse by blast

lemma dog_GetProperties:
  "GetProperties (Suc n) dog_swagger dog_schema = Some (Ok (Properties Dog))"
  "GetProperties (Suc n) dog_swagger coat_schema = Some (Ok (Properties Coat))"
  by (simp_all add: GetProperties.simps dog_deref Dog_def Coat_def)

lemma dog_recognized:
  "recognized (Suc n) dog_swagger dog4 dog_schema
     = [(''name'', VString ''rex''), (''age'', VFloat 3), (''tag'', VString ''a'')]"
  "recognized (Suc n) dog_swagger dog4 coat_schema = [(''color'', VString ''red'')]"
  by (simp_all add: recognized_def dog_GetProperties Dog_def Coat_def dog4_def map_filter_simps)

lemma dog_member_parses:
  "\<exists>coll'. Parses (Suc (Suc n)) example_env dog_swagger []
             dog_schema (VMap (recognized (Suc (Suc n)) dog_swagger dog4 dog_schema)) coll True
           = Some (Ok (), coll')"
proof -
  let ?m = "[(''name'', VString ''rex''), (''age'', VFloat 3), (''tag'', VString ''a'')]"
  have f: "\<exists>coll'. Parses (Suc n) example_env dog_swagger [] ps x coll0 True = Some (Ok (), coll')"
    if "(p, x) \<in> set ?m" "map_of (Properties Dog) p = Some ps" for p x ps coll0
    by (rule Dog_fields_parse[of p x]) (use that in \<open>auto simp: dog4_def\<close>)
  have r: "list_all (\<lambda>r. map_of ?m r \<noteq> None) (Required Dog)"
    by (simp add: Dog_facts)
  have "(3 * length ?m \<le> 4 * length (filter (\<lambda>(p, x). map_of (Properties Dog) p \<noteq> None) ?m)
           \<longrightarrow> (\<exists>coll'. Parses (Suc (Suc n)) example_env dog_swagger [] dog_schema (VMap ?m) coll True
                          = Some (Ok (), coll')))
       \<and> (4 * length (filter (\<lambda>(p, x). map_of (Properties Dog) p \<noteq> None) ?m) < 3 * length ?m
           \<longrightarrow> (\<exists>coll'. Parses (Suc (Suc n)) example_env dog_swagger [] dog_schema (VMap ?m) coll True
                          = Some (Err (raiseError example_env dog_swagger dog_schema (VMap ?m)
                                         ''too many mis-matched fields''), coll')))"
    by (rule Parses_object_threshold[OF dog_refs(1) dog_refs(7) dog_deref(1) Dog_facts(1) r])
       (rule f)
  moreover have "length (filter (\<lambda>(p, x). map_of (Properties Dog) p \<noteq> None) ?m) = 3"
    by (simp add: Dog_def)
  ultimately show ?thesis by (simp add: dog_recognized)
qed

lemma coat_member_parses:
  "\<exists>coll'. Parses (Suc (Suc n)) example_env dog_swagger []
             coat_schema (VMap (recognized (Suc (Suc n)) dog_swagger dog4 coat_schema)) coll True
           = Some (Ok (), coll')"
  unfolding dog_recognized
  by (subst Parses.simps)
     (simp add: dog_refs dog_deref Coat_def empty_Schema_def missing_required_def string_parses)

lemma ColoredDog_hyp:
  "AllOf ColoredDog \<noteq> [] \<and>
   (\<forall>s \<in> set (AllOf ColoredDog). \<exists>p. GetProperties (Suc (Suc 0)) dog_swagger s = Some (Ok p) \<and>
      (p \<noteq> [] \<longrightarrow> (\<forall>coll. \<exists>coll'. Parses (Suc (Suc 0)) example_env dog_swagger [] s
                        (VMap (recognized (Suc (Suc 0)) dog_swagger dog4 s)) coll True
                      = Some (Ok (), coll'))))"
  using dog_member_parses[of 0] coat_member_parses[of 0]
  by (simp add: ColoredDog_def dog_GetProperties)

lemma ColoredDog_count:
  "sum_list (map (\<lambda>s. length (recognized (Suc (Suc 0)) dog_swagger dog4 s)) (AllOf ColoredDog)) = 4"
  by (simp add: ColoredDog_def dog_recognized)

lemma owned_recognized:
  "recognized (Suc n) dog_swagger owned3 dog_schema = [(''name'', VString ''rex'')]"
  "recognized (Suc n) dog_swagger owned3 coat_schema = [(''color'', VString ''red'')]"
  by (simp_all add: recognized_def dog_GetProperties Dog_def Coat_def owned3_def map_filter_simps)

lemma owned_member_parses:
  "\<exists>coll'. Parses (Suc (Suc n)) example_env dog_swagger []
             dog_schema (VMap (recognized (Suc (Suc n)) dog_swagger owned3 dog_schema)) coll True
           = Some (Ok (), coll')"
  "\<exists>coll'. Parses (Suc (Suc n)) example_env dog_swagger []
             coat_schema (VMap (recognized (Suc (Suc n)) dog_swagger owned3 coat_schema)) coll True
           = Some (Ok (), coll')"
  unfolding owned_recognized
  by (subst Parses.simps,
      simp add: dog_refs dog_deref Dog_def Coat_def empty_Schema_def missing_required_def
        string_parses)+

lemma owned_hyp:
  "AllOf ColoredDog \<noteq> [] \<and>
   (\<forall>s \<in> set (AllOf ColoredDog). \<exists>p. GetProperties (Suc (Suc 0)) dog_swagger s = Some (Ok p) \<and>
      (p \<noteq> [] \<longrightarrow> (\<forall>coll. \<exists>coll'. Parses (Suc (Suc 0)) example_env dog_swagger [] s
                        (VMap (recognized (Suc (Suc 0)) dog_swagger owned3 s)) coll True
                      = Some (Ok (), coll'))))"
  using owned_member_parses[of 0]
  by (simp add: ColoredDog_def dog_GetProperties)

lemma owned_count:
  "sum_list (map (\<lambda>s. length (recognized (Suc (Suc 0)) dog_swagger owned3 s)) (AllOf ColoredDog)) = 2"
  "length owned3 = 3"
  by (simp add: ColoredDog_def owned_recognized) (simp add: owned3_def)

text \<open>
  Claim C2 as stated fails for a schema of object kind when a required field is missing:
  the object has one field, \<open>name\<close>, which \<open>StrictDog\<close> recognizes and which parses, so
  \<open>k = n = 1\<close> and \<open>4k \<ge> 3n\<close>; but \<open>StrictDog\<close> requires \<open>id\<close>, and \<open>Parses\<close> fails.
\<close>

theorem Parses_threshold_counterexample:
  "length dog1 = 1 \<and>
   length (filter (\<lambda>(p, x). map_of (Properties StrictDog) p \<noteq> None) dog1) = 1 \<and>
   map_of (Properties StrictDog) ''name'' = Some string_schema \<and>
   Parses (Suc 0) example_env dog_swagger [] string_schema (VString ''rex'') (\<lambda>key. []) True
     = Some (Ok (), \<lambda>key. []) \<and>
   Parses (Suc (Suc 0)) example_env dog_swagger [] strict_schema (VMap dog1) (\<lambda>key. []) True
     = Some (Err (raiseError example_env dog_swagger strict_schema (VMap dog1)
                    ''required field not present: id''), \<lambda>key. [])"
  by (simp add: strict_missing string_parses) (simp add: dog1_def StrictDog_def)

text \<open>
  Claim C2, amended. Let the schema be no reference and the object a keyed map with \<open>n\<close>
  fields.
  \<^item> Object kind (no \<open>allOf\<close>): if every required field is present and each of the \<open>k\<close>
    fields that the schema's properties name parses, then \<open>Parses\<close> succeeds when
    \<open>4k \<ge> 3n\<close> and fails with "too many mis-matched fields" when \<open>4k < 3n\<close>.
  \<^item> Composite (\<open>allOf\<close>): if every member's properties are found and every member that has
    properties parses the fields it recognizes, then \<open>Parses\<close> succeeds when \<open>4c \<ge> 3n\<close> and
    fails with "too many mismatched fields" when \<open>4c < 3n\<close>, where \<open>c\<close> counts the
    recognized fields once for every member that recognizes them.
  So the parse fails at \<open>4k = 3n - 1\<close> and succeeds at \<open>4k = 3n\<close>.
\<close>

theorem Parses_threshold:
  assumes "GetReferredSchema sw schema = Ok (refName, referred)" and "Value referred = None"
    and "deref sw schema = Some v"
  shows
    "(AllOf v = [] \<and> list_all (\<lambda>r. map_of objMap r \<noteq> None) (Required v) \<and>
      (\<forall>(p, x) \<in> set objMap. \<forall>ps coll. map_of (Properties v) p = Some ps \<longrightarrow>
          (\<exists>coll'. Parses n E sw [] ps x coll followRef = Some (Ok (), coll')))
      \<longrightarrow>
        (3 * length objMap \<le> 4 * length (filter (\<lambda>(p, x). map_of (Properties v) p \<noteq> None) objMap)
           \<longrightarrow> (\<exists>coll'. Parses (Suc n) E sw name schema (VMap objMap) coll followRef
                          = Some (Ok (), coll')))
      \<and> (4 * length (filter (\<lambda>(p, x). map_of (Properties v) p \<noteq> None) objMap) < 3 * length objMap
           \<longrightarrow> (\<exists>coll'. Parses (Suc n) E sw name schema (VMap objMap) coll followRef
                          = Some (Err (raiseError E sw schema (VMap objMap)
                                         ''too many mis-matched fields''), coll'))))
     \<and>
     (AllOf v \<noteq> [] \<and>
      (\<forall>s \<in> set (AllOf v). \<exists>p. GetProperties n sw s = Some (Ok p) \<and>
          (p \<noteq> [] \<longrightarrow> (\<forall>coll. \<exists>coll'. Parses n E sw [] s (VMap (recognized n sw objMap s)) coll
                                   followRef = Some (Ok (), coll'))))
      \<longrightarrow>
        (3 * length objMap \<le> 4 * sum_list (map (\<lambda>s. length (recognized n sw objMap s)) (AllOf v))
           \<longrightarrow> (\<exists>coll'. Parses (Suc n) E sw name schema (VMap objMap) coll followRef
                          = Some (Ok (), coll')))
      \<and> (4 * sum_list (map (\<lambda>s. length (recognized n sw objMap s)) (AllOf v)) < 3 * length objMap
           \<longrightarrow> (\<exists>coll'. Parses (Suc n) E sw name schema (VMap objMap) coll followRef
                          = Some (Err (raiseError E sw schema (VMap objMap)
                                         ''too many mismatched fields''), coll'))))"
proof (intro conjI impI; (elim conjE)?)
  assume a: "AllOf v = []" "list_all (\<lambda>r. map_of objMap r \<noteq> None) (Required v)"
    "\<forall>(p, x) \<in> set objMap. \<forall>ps coll. map_of (Properties v) p = Some ps \<longrightarrow>
          (\<exists>coll'. Parses n E sw [] ps x coll followRef = Some (Ok (), coll'))"
  have f: "\<exists>coll'. Parses n E sw [] ps x coll0 followRef = Some (Ok (), coll')"
    if "(p, x) \<in> set objMap" "map_of (Properties v) p = Some ps" for p x ps coll0
    using a(3) that by blast
  have t: "(3 * length objMap \<le> 4 * length (filter (\<lambda>(p, x). map_of (Properties v) p \<noteq> None) objMap)
           \<longrightarrow> (\<exists>coll'. Parses (Suc n) E sw name schema (VMap objMap) coll followRef
                          = Some (Ok (), coll')))
       \<and> (4 * length (filter (\<lambda>(p, x). map_of (Properties v) p \<noteq> None) objMap) < 3 * length objMap
           \<longrightarrow> (\<exists>coll'. Parses (Suc n) E sw name schema (VMap objMap) coll followRef
                          = Some (Err (raiseError E sw schema (VMap objMap)
                                         ''too many mis-matched fields''), coll')))"
    by (rule Parses_object_threshold[OF assms a(1) a(2)]) (rule f)
  {
    assume "3 * length objMap \<le> 4 * length (filter (\<lambda>(p, x). map_of (Properties v) p \<noteq> None) objMap)"
    with t show "\<exists>coll'. Parses (Suc n) E sw name schema (VMap objMap) coll followRef
                          = Some (Ok (), coll')" by blast
  }
  {
    assume "4 * length (filter (\<lambda>(p, x). map_of (Properties v) p \<noteq> None) objMap) < 3 * length objMap"
    with t show "\<exists>coll'. Parses (Suc n) E sw name schema (VMap objMap) coll followRef
                          = Some (Err (raiseError E sw schema (VMap objMap)
                                         ''too many mis-matched fields''), coll')" by blast
  }
next
  assume a: "AllOf v \<noteq> []"
    "\<forall>s \<in> set (AllOf v). \<exists>p. GetProperties n sw s = Some (Ok p) \<and>
          (p \<noteq> [] \<longrightarrow> (\<forall>coll. \<exists>coll'. Parses n E sw [] s (VMap (recognized n sw objMap s)) coll
                                   followRef = Some (Ok (), coll')))"
  have m: "\<exists>p. GetProperties n sw s = Some (Ok p) \<and>
          (p \<noteq> [] \<longrightarrow> (\<forall>coll. \<exists>coll'. Parses n E sw [] s (VMap (recognized n sw objMap s)) coll
                                   followRef = Some (Ok (), coll')))"
    if "s \<in> set (AllOf v)" for s
    using a(2) that by blast
  have t: "(3 * length objMap \<le> 4 * sum_list (map (\<lambda>s. length (recognized n sw objMap s)) (AllOf v))
           \<longrightarrow> (\<exists>coll'. Parses (Suc n) E sw name schema (VMap objMap) coll followRef
                          = Some (Ok (), coll')))
       \<and> (4 * sum_list (map (\<lambda>s. length (recognized n sw objMap s)) (AllOf v)) < 3 * length objMap
           \<longrightarrow> (\<exists>coll'. Parses (Suc n) E sw name schema (VMap objMap) coll followRef
                          = Some (Err (raiseError E sw schema (VMap objMap)
                                         ''too many mismatched fields''), coll')))"
    by (rule Parses_composite_threshold[OF assms a(1)]) (rule m)
  {
    assume "3 * length objMap \<le> 4 * sum_list (map (\<lambda>s. length (recognized n sw objMap s)) (AllOf v))"
    with t show "\<exists>coll'. Parses (Suc n) E sw name schema (VMap objMap) coll followRef
                          = Some (Ok (), coll')" by blast
  }
  {
    assume "4 * sum_list (map (\<lambda>s. length (recognized n sw objMap s)) (AllOf v)) < 3 * length objMap"
    with t show "\<exists>coll'. Parses (Suc n) E sw name schema (VMap objMap) coll followRef
                          = Some (Err (raiseError E sw schema (VMap objMap)
                                         ''too many mismatched fields''), coll')" by blast
  }
qed

theorem Parses_threshold_witness:
  "GetReferredSchema dog_swagger dog_schema = Ok ([], no_reference) \<and>
   Value no_reference = None \<and>
   deref dog_swagger dog_schema = Some Dog \<and> AllOf Dog = [] \<and> Required Dog = [] \<and>
   length dog4 = 4 \<and> length (filter (\<lambda>(p, x). map_of (Properties Dog) p \<noteq> None) dog4) = 3 \<and>
   (\<exists>coll'. Parses (Suc (Suc 0)) example_env dog_swagger [] dog_schema (VMap dog4) (\<lambda>key. []) True
              = Some (Ok (), coll')) \<and>
   length dog3 = 3 \<and> length (filter (\<lambda>(p, x). map_of (Properties Dog) p \<noteq> None) dog3) = 2 \<and>
   (\<exists>coll'. Parses (Suc (Suc 0)) example_env dog_swagger [] dog_schema (VMap dog3) (\<lambda>key. []) True
              = Some (Err (raiseError example_env dog_swagger dog_schema (VMap dog3)
                             ''too many mis-matched fields''), coll')) \<and>
   deref dog_swagger colored_schema = Some ColoredDog \<and>
   sum_list (map (\<lambda>s. length (recognized (Suc (Suc 0)) dog_swagger dog4 s)) (AllOf ColoredDog)) = 4 \<and>
   (\<exists>coll'. Parses (Suc (Suc (Suc 0))) example_env dog_swagger [] colored_schema (VMap dog4)
               (\<lambda>key. []) True
              = Some (Ok (), coll')) \<and>
   length owned3 = 3 \<and>
   sum_list (map (\<lambda>s. length (recognized (Suc (Suc 0)) dog_swagger owned3 s)) (AllOf ColoredDog)) = 2 \<and>
   (\<exists>coll'. Parses (Suc (Suc (Suc 0))) example_env dog_swagger [] colored_schema (VMap owned3)
               (\<lambda>key. []) True
              = Some (Err (raiseError example_env dog_swagger colored_schema (VMap owned3)
                             ''too many mismatched fields''), coll'))"
proof -
  have req: "list_all (\<lambda>r. map_of objMap r \<noteq> None) (Required Dog)" for objMap :: "jvalue gomap"
    by (simp add: Dog_facts)
  have f4: "\<forall>(p, x) \<in> set dog4. \<forall>ps coll. map_of (Properties Dog) p = Some ps \<longrightarrow>
     (\<exists>coll'. Parses (Suc 0) example_env dog_swagger [] ps x coll True = Some (Ok (), coll'))"
    using Dog_fields_hyp[of 0] by blast
  have f3: "\<forall>(p, x) \<in> set dog3. \<forall>ps coll. map_of (Properties Dog) p = Some ps \<longrightarrow>
     (\<exists>coll'. Parses (Suc 0) example_env dog_swagger [] ps x coll True = Some (Ok (), coll'))"
    using Dog_fields_hyp[of 0] by blast
  note at4 = Parses_threshold[OF dog_refs(1) dog_refs(7) dog_deref(1),
      where objMap = dog4 and n = "Suc 0" and E = example_env and followRef = True
        and name = "[]" and coll = "\<lambda>key. []"]
  note at3 = Parses_threshold[OF dog_refs(1) dog_refs(7) dog_deref(1),
      where objMap = dog3 and n = "Suc 0" and E = example_env and followRef = True
        and name = "[]" and coll = "\<lambda>key. []"]
  note atc = Parses_threshold[OF dog_refs(3) dog_refs(7) dog_deref(3),
      where objMap = dog4 and n = "Suc (Suc 0)" and E = example_env and followRef = True
        and name = "[]" and coll = "\<lambda>key. []"]
  have le4: "3 * length dog4 \<le> 4 * length (filter (\<lambda>(p, x). map_of (Properties Dog) p \<noteq> None) dog4)"
    unfolding Dog_facts(3) Dog_facts(5) by simp
  have lt3: "4 * length (filter (\<lambda>(p, x). map_of (Properties Dog) p \<noteq> None) dog3) < 3 * length dog3"
    unfolding Dog_facts(4) Dog_facts(6) by simp
  have lec: "3 * length dog4
        \<le> 4 * sum_list (map (\<lambda>s. length (recognized (Suc (Suc 0)) dog_swagger dog4 s)) (AllOf ColoredDog))"
    unfolding ColoredDog_count Dog_facts(5) by simp
  note ato = Parses_threshold[OF dog_refs(3) dog_refs(7) dog_deref(3),
      where objMap = owned3 and n = "Suc (Suc 0)" and E = example_env and followRef = True
        and name = "[]" and coll = "\<lambda>key. []"]
  have lto: "4 * sum_list (map (\<lambda>s. length (recognized (Suc (Suc 0)) dog_swagger owned3 s))
                             (AllOf ColoredDog)) < 3 * length owned3"
    unfolding owned_count by simp
  have bado: "\<exists>coll'. Parses (Suc (Suc (Suc 0))) example_env dog_swagger [] colored_schema
                (VMap owned3) (\<lambda>key. []) True
              = Some (Err (raiseError example_env dog_swagger colored_schema (VMap owned3)
                             ''too many mismatched fields''), coll')"
    using ato owned_hyp lto by blast
  have ok4: "\<exists>coll'. Parses (Suc (Suc 0)) example_env dog_swagger [] dog_schema (VMap dog4)
                (\<lambda>key. []) True = Some (Ok (), coll')"
    using at4 Dog_facts(1) req f4 le4 by blast
  have bad3: "\<exists>coll'. Parses (Suc (Suc 0)) example_env dog_swagger [] dog_schema (VMap dog3)
                (\<lambda>key. []) True
              = Some (Err (raiseError example_env dog_swagger dog_schema (VMap dog3)
                             ''too many mis-matched fields''), coll')"
    using at3 Dog_facts(1) req f3 lt3 by blast
  have okc: "\<exists>coll'. Parses (Suc (Suc (Suc 0))) example_env dog_swagger [] colored_schema (VMap dog4)
               (\<lambda>key. []) True = Some (Ok (), coll')"
    using atc ColoredDog_hyp lec by blast
  from dog_refs(1) dog_refs(7) dog_deref(1) Dog_facts(1,2,5,3) ok4 Dog_facts(6,4) bad3
    dog_deref(3) ColoredDog_count okc owned_count(2) owned_count(1) bado
  show ?thesis by (intro conjI)
qed

section \<open>Generation followed by matching\<close>









text \<open>
  An integer with a declared bound is another matter: \<open>Validate\<close> asserts \<open>c.(float64)\<close> on
  the value, and the generator's integer is an \<open>int64\<close>.
\<close>

lemma Matches_bounded_integer:
  assumes "GetReferredSchema sw schema = Ok (refName, referredSchema)" "Value referredSchema = None"
    and "deref sw schema = Some v" "AllOf v = []" "Type v = ''integer''"
    and "Min v \<noteq> None \<or> Max v \<noteq> None"
  shows "Matches (Suc 0) E sw schema (VInt i) = Some (Panic interface_conversion)"
proof -
  have b: "Validate_bounds v (VInt i) = Panic interface_conversion"
    using assms(6) by (auto simp: Validate_bounds_def Let_def split: option.splits)
  have "Validate E sw schema (VInt i) = Panic interface_conversion"
    using assms(3,5) b by (simp add: Validate_def TYPE_STRING_def TYPE_NUMBER_def TYPE_INTEGER_def)
  then have "Parses_value E sw schema v (VInt i) = Panic interface_conversion"
    using assms(5) by (simp add: Parses_value_def TYPE_NUMBER_def TYPE_INTEGER_def)
  then show ?thesis
    unfolding Matches_def
    by (subst Parses.simps) (use assms(1-4) in \<open>simp add: Let_def\<close>)
qed










end
